theory Spec2Isabelle
  imports Complex_Main
begin

section \<open>Waveform analyzer: the sampling grid and the spectral operations\<close>

text \<open>
  A shallow embedding of \<^verbatim>\<open>src/waveform_analyzer.py\<close> (class \<^verbatim>\<open>WaveformAnalyzer\<close>).
  NumPy's double-precision arrays are modelled as lists of exact reals (complex numbers
  for the FFT output): rounding, \<^verbatim>\<open>inf\<close> and \<^verbatim>\<open>nan\<close> are outside the model. Every
  exception of the source is a value \<open>Inl e\<close> of a sum type.
\<close>

subsection \<open>Library functions used by the analyzer\<close>

datatype py_error = IndexError | ValueError

text \<open>Python slices \<^verbatim>\<open>xs[:k]\<close> (a negative \<open>k\<close> counts from the end) and
  \<^verbatim>\<open>xs[lo:hi]\<close> for non-negative bounds.\<close>

definition py_prefix :: "int \<Rightarrow> 'a list \<Rightarrow> 'a list" where
  "py_prefix k xs =
     (if 0 \<le> k then take (nat k) xs else take (length xs - nat (- k)) xs)"

definition py_slice :: "nat \<Rightarrow> nat \<Rightarrow> 'a list \<Rightarrow> 'a list" where
  "py_slice lo hi xs = drop lo (take hi xs)"

text \<open>\<^verbatim>\<open>np.linspace(start, stop, num)\<close>: a negative \<open>num\<close> raises; otherwise
  \<open>num\<close> points \<open>start + i * step\<close>, the last one overwritten with \<open>stop\<close>.\<close>

definition linspace :: "real \<Rightarrow> real \<Rightarrow> int \<Rightarrow> py_error + real list" where
  "linspace start stop num =
     (if num < 0 then Inl ValueError
      else if num = 0 then Inr []
      else if num = 1 then Inr [start]
      else
        (let step = (stop - start) / real_of_int (num - 1);
             y = map (\<lambda>i. real i * step + start) [0..<nat num]
         in Inr (y[nat num - 1 := stop])))"

text \<open>\<^verbatim>\<open>scipy.fft.fftfreq(n, d)\<close>: the bin numbers
  \<open>0, 1, \<dots>, (n-1) div 2, -(n div 2), \<dots>, -1\<close>, each times \<open>1 / (n * d)\<close>.\<close>

definition fftfreq :: "int \<Rightarrow> real \<Rightarrow> real list" where
  "fftfreq n d =
     (let val = 1 / (real_of_int n * d);
          N = (n - 1) div 2 + 1
      in map (\<lambda>k. real_of_int k * val) ([0..N - 1] @ [- (n div 2)..- 1]))"

text \<open>\<^verbatim>\<open>scipy.fft.fft\<close> of a real sequence: the discrete Fourier transform
  \<open>y[k] = \<Sum>j<N. x[j] * exp (-2\<pi>i * k * j / N)\<close>; an empty input raises.\<close>

definition dft_bin :: "real list \<Rightarrow> nat \<Rightarrow> complex" where
  "dft_bin xs k =
     (\<Sum>j<length xs. complex_of_real (xs ! j) *
         cis (- (2 * pi * real k * real j / real (length xs))))"

definition fft :: "real list \<Rightarrow> py_error + complex list" where
  "fft xs = (if xs = [] then Inl ValueError
             else Inr (map (dft_bin xs) [0..<length xs]))"

text \<open>\<^verbatim>\<open>np.max\<close>, \<^verbatim>\<open>np.min\<close> of a non-empty array (the callers test for emptiness,
  where NumPy raises) and \<^verbatim>\<open>np.sum\<close>, \<^verbatim>\<open>np.mean\<close>, \<^verbatim>\<open>np.std\<close>.\<close>

definition np_max :: "real list \<Rightarrow> real" where
  "np_max xs = fold max (tl xs) (hd xs)"

definition np_min :: "real list \<Rightarrow> real" where
  "np_min xs = fold min (tl xs) (hd xs)"

definition np_mean :: "real list \<Rightarrow> real" where
  "np_mean xs = sum_list xs / real (length xs)"

definition np_std :: "real list \<Rightarrow> real" where
  "np_std xs = sqrt (np_mean (map (\<lambda>x. \<bar>x - np_mean xs\<bar> ^ 2) xs))"

subsection \<open>Construction of the grid\<close>

text \<open>The dictionary passed to the constructor may hold either key, both or none.\<close>

record config_arg =
  arg_t_max :: "real option"
  arg_n_samples :: "int option"

record config =
  t_max :: real
  n_samples :: int

record analyzer =
  config :: config
  t :: "real list"
  dt :: real
  n_freq :: int
  freq :: "real list"
  freq_positive :: "real list"

definition default_config :: config where
  "default_config = \<lparr>t_max = 1, n_samples = 100000\<rparr>"

definition config_update :: "config \<Rightarrow> config_arg \<Rightarrow> config" where
  "config_update c a =
     \<lparr>t_max = (case arg_t_max a of None \<Rightarrow> t_max c | Some v \<Rightarrow> v),
      n_samples = (case arg_n_samples a of None \<Rightarrow> n_samples c | Some v \<Rightarrow> v)\<rparr>"

text \<open>\<^verbatim>\<open>_init_time_freq_params\<close>. Reading \<^verbatim>\<open>self.t[1]\<close> raises IndexError when the
  time array has fewer than two entries. For \<open>t_max = 0\<close> the step is \<open>0\<close> and
  NumPy's frequencies are \<^verbatim>\<open>nan\<close> and \<^verbatim>\<open>inf\<close>, which \<open>real\<close> cannot express: no
  statement below is about the frequencies of that grid.\<close>

definition init_time_freq_params :: "config \<Rightarrow> py_error + analyzer" where
  "init_time_freq_params c =
     (case linspace 0 (t_max c) (n_samples c) of
        Inl e \<Rightarrow> Inl e
      | Inr ts \<Rightarrow>
          if length ts \<le> 1 then Inl IndexError
          else
            (let d = ts ! 1 - ts ! 0;
                 nf = n_samples c div 2;
                 fr = py_prefix nf (fftfreq (n_samples c) d)
             in Inr \<lparr>config = c, t = ts, dt = d, n_freq = nf, freq = fr,
                     freq_positive = filter (\<lambda>f. f > 0) fr\<rparr>))"

text \<open>\<^verbatim>\<open>__init__\<close>: \<^verbatim>\<open>if config:\<close> is false for \<^verbatim>\<open>None\<close> and for the empty
  dictionary, where the defaults stay.\<close>

definition merged_config :: "config_arg option \<Rightarrow> config" where
  "merged_config cfg =
     (case cfg of None \<Rightarrow> default_config
      | Some a \<Rightarrow> config_update default_config a)"

definition init :: "config_arg option \<Rightarrow> py_error + analyzer" where
  "init cfg = init_time_freq_params (merged_config cfg)"

subsection \<open>Time-domain statistics\<close>

definition compute_energy :: "analyzer \<Rightarrow> real list \<Rightarrow> real" where
  "compute_energy self wave = sum_list (map (\<lambda>x. x ^ 2) wave) * dt self"

text \<open>\<^verbatim>\<open>compute_statistics\<close> builds a dictionary; \<^verbatim>\<open>np.min\<close> of an empty array
  raises ValueError (the mean and the deviation before it only warn).\<close>

definition compute_statistics ::
  "analyzer \<Rightarrow> real list \<Rightarrow> py_error + (string \<rightharpoonup> real)" where
  "compute_statistics self wave =
     (if wave = [] then Inl ValueError
      else Inr (map_of
        [(''mean'', np_mean wave),
         (''std'', np_std wave),
         (''min'', np_min wave),
         (''max'', np_max wave),
         (''peak_to_peak'', np_max wave - np_min wave),
         (''rms'', sqrt (np_mean (map (\<lambda>x. x ^ 2) wave))),
         (''energy'', compute_energy self wave)]))"

subsection \<open>Spectrum\<close>

text \<open>\<^verbatim>\<open>compute_spectrum\<close>. No length of \<open>wave\<close> is checked: the FFT is taken of
  the wave as given and its first \<open>n_freq\<close> bins are kept. \<^verbatim>\<open>np.max\<close> is only
  evaluated when the flag \<^verbatim>\<open>normalize\<close> holds, and raises on an empty array.\<close>

definition compute_spectrum :: "analyzer \<Rightarrow> real list \<Rightarrow> bool \<Rightarrow> py_error + real list" where
  "compute_spectrum self wave normalise =
     (case fft wave of
        Inl e \<Rightarrow> Inl e
      | Inr spectrum \<Rightarrow>
          (let magnitude = map (\<lambda>z. cmod z / real_of_int (n_samples (config self)))
                             (py_prefix (n_freq self) spectrum)
           in if normalise then
                (if magnitude = [] then Inl ValueError
                 else if np_max magnitude > 0
                   then Inr (map (\<lambda>m. m / np_max magnitude) magnitude)
                   else Inr magnitude)
              else Inr magnitude))"

subsection \<open>Frequency sub-range\<close>

text \<open>\<^verbatim>\<open>np.searchsorted(a, v)\<close> (side left) on an ascending array: the number of
  leading entries below \<open>v\<close>, which is the first index whose entry is at least \<open>v\<close>.\<close>

definition searchsorted :: "real list \<Rightarrow> real \<Rightarrow> nat" where
  "searchsorted a v = length (takeWhile (\<lambda>x. x < v) a)"

text \<open>The four lines that \<^verbatim>\<open>find_dominant_frequency\<close> and \<^verbatim>\<open>find_multiple_peaks\<close>
  share: \<open>min_idx\<close>, \<open>max_idx\<close>, \<open>freq_range\<close> and \<open>spectrum_range\<close>.\<close>

definition min_idx :: "analyzer \<Rightarrow> real \<Rightarrow> nat" where
  "min_idx self min_freq = max 1 (searchsorted (freq_positive self) min_freq)"

definition max_idx :: "analyzer \<Rightarrow> real option \<Rightarrow> nat" where
  "max_idx self max_freq =
     (case max_freq of
        None \<Rightarrow> length (freq_positive self)
      | Some m \<Rightarrow> searchsorted (freq_positive self) m)"

definition freq_range :: "analyzer \<Rightarrow> real \<Rightarrow> real option \<Rightarrow> real list" where
  "freq_range self min_freq max_freq =
     py_slice (min_idx self min_freq) (max_idx self max_freq) (freq_positive self)"

definition spectrum_range ::
  "analyzer \<Rightarrow> real list \<Rightarrow> real \<Rightarrow> real option \<Rightarrow> real list" where
  "spectrum_range self spectrum min_freq max_freq =
     py_slice (min_idx self min_freq)
       (min_idx self min_freq + length (freq_range self min_freq max_freq)) spectrum"

subsection \<open>Dominant frequency\<close>

text \<open>\<^verbatim>\<open>np.argmax\<close>: one pass that replaces the best index only on a strictly
  greater entry; an empty array raises.\<close>

fun argmax_loop :: "real list \<Rightarrow> nat \<Rightarrow> nat \<Rightarrow> real \<Rightarrow> nat" where
  "argmax_loop [] i best_i best = best_i"
| "argmax_loop (x # xs) i best_i best =
     (if best < x then argmax_loop xs (i + 1) i x
      else argmax_loop xs (i + 1) best_i best)"

definition argmax :: "real list \<Rightarrow> py_error + nat" where
  "argmax xs = (case xs of [] \<Rightarrow> Inl ValueError
                | x # rest \<Rightarrow> Inr (argmax_loop rest 1 0 x))"

definition find_dominant_frequency ::
  "analyzer \<Rightarrow> real list \<Rightarrow> real \<Rightarrow> real option \<Rightarrow> py_error + real \<times> real" where
  "find_dominant_frequency self wave min_freq max_freq =
     (case compute_spectrum self wave False of
        Inl e \<Rightarrow> Inl e
      | Inr spectrum \<Rightarrow>
          (let fr = freq_range self min_freq max_freq;
               sr = spectrum_range self spectrum min_freq max_freq
           in if length fr = 0 then Inr (0, 0)
              else
                (case argmax sr of
                   Inl e \<Rightarrow> Inl e
                 | Inr peak_idx \<Rightarrow> Inr (fr ! peak_idx, sr ! peak_idx))))"

subsection \<open>Several peaks\<close>

text \<open>\<^verbatim>\<open>scipy.signal.find_peaks(x, height=h)\<close>. Its local-maxima pass walks the
  interior samples; at a sample above its left neighbour it looks ahead over the samples
  equal to it, and if the next different sample is lower it records the midpoint of that
  flat run and continues after the run. Peaks below \<open>h\<close> are then dropped.\<close>

function look_ahead :: "real list \<Rightarrow> nat \<Rightarrow> nat \<Rightarrow> nat" where
  "look_ahead x i i_ahead =
     (if i_ahead < length x - 1 \<and> x ! i_ahead = x ! i
      then look_ahead x i (i_ahead + 1) else i_ahead)"
  by pat_completeness auto
termination
  by (relation "measure (\<lambda>(x, i, i_ahead). length x - i_ahead)") auto

declare look_ahead.simps [simp del]

lemma look_ahead_step:
  "i_ahead < length x - 1 \<Longrightarrow> x ! i_ahead = x ! i
     \<Longrightarrow> look_ahead x i i_ahead = look_ahead x i (i_ahead + 1)"
  by (subst look_ahead.simps) simp

lemma look_ahead_stop:
  "\<not> (i_ahead < length x - 1 \<and> x ! i_ahead = x ! i) \<Longrightarrow> look_ahead x i i_ahead = i_ahead"
  by (subst look_ahead.simps) (simp only: if_False)

lemma look_ahead_ge: "i_ahead \<le> look_ahead x i i_ahead"
proof (induction x i i_ahead rule: look_ahead.induct)
  case (1 x i i_ahead)
  show ?case
  proof (cases "i_ahead < length x - 1 \<and> x ! i_ahead = x ! i")
    case True
    with "1.IH" have "i_ahead + 1 \<le> look_ahead x i (i_ahead + 1)" by simp
    with True show ?thesis by (simp add: look_ahead_step)
  next
    case False
    then have "look_ahead x i i_ahead = i_ahead" by (rule look_ahead_stop)
    then show ?thesis by simp
  qed
qed

function local_maxima_1d :: "real list \<Rightarrow> nat \<Rightarrow> nat list" where
  "local_maxima_1d x i =
     (if i < length x - 1 then
        (if x ! (i - 1) < x ! i then
           (let i_ahead = look_ahead x i (i + 1)
            in if x ! i_ahead < x ! i
               then ((i + (i_ahead - 1)) div 2) # local_maxima_1d x (i_ahead + 1)
               else local_maxima_1d x (i + 1))
         else local_maxima_1d x (i + 1))
      else [])"
  by pat_completeness auto
termination
proof (relation "measure (\<lambda>(x, i). length x - i)")
  show "wf (measure (\<lambda>(x, i). length x - i))" by simp
next
  fix x :: "real list" and i i_ahead :: nat
  assume a: "i < length x - 1" and b: "i_ahead = look_ahead x i (i + 1)"
  have "i + 1 \<le> i_ahead" unfolding b by (rule look_ahead_ge)
  with a show "((x, i_ahead + 1), (x, i)) \<in> measure (\<lambda>(x, i). length x - i)" by simp
qed auto

declare local_maxima_1d.simps [simp del]

definition find_peaks :: "real list \<Rightarrow> real \<Rightarrow> nat list" where
  "find_peaks x height = filter (\<lambda>p. height \<le> x ! p) (local_maxima_1d x 1)"

text \<open>\<^verbatim>\<open>np.argsort\<close>: the indices that sort the array ascending. NumPy's default sort
  leaves the order of equal entries open; this model keeps them in index order.\<close>

definition argsort :: "real list \<Rightarrow> nat list" where
  "argsort xs = map snd (sort_key fst (zip xs [0..<length xs]))"

text \<open>\<^verbatim>\<open>find_multiple_peaks\<close>; the slice \<^verbatim>\<open>[:n_peaks]\<close> is Python's, for any integer.\<close>

definition find_multiple_peaks ::
  "analyzer \<Rightarrow> real list \<Rightarrow> int \<Rightarrow> real \<Rightarrow> real option \<Rightarrow> real
     \<Rightarrow> py_error + real list \<times> real list" where
  "find_multiple_peaks self wave n_peaks min_freq max_freq height =
     (case compute_spectrum self wave True of
        Inl e \<Rightarrow> Inl e
      | Inr spectrum \<Rightarrow>
          (let fr = freq_range self min_freq max_freq;
               sr = spectrum_range self spectrum min_freq max_freq
           in if length fr = 0 then Inr ([], [])
              else
                (let peaks = find_peaks sr height;
                     sorted_indices =
                       py_prefix n_peaks (rev (argsort (map (\<lambda>p. sr ! p) peaks)))
                 in Inr (map (\<lambda>k. fr ! (peaks ! k)) sorted_indices,
                         map (\<lambda>k. sr ! (peaks ! k)) sorted_indices))))"

subsection \<open>Bandwidth\<close>

definition compute_bandwidth ::
  "analyzer \<Rightarrow> real list \<Rightarrow> real \<Rightarrow> py_error + real \<times> real \<times> real" where
  "compute_bandwidth self wave threshold =
     (case compute_spectrum self wave True of
        Inl e \<Rightarrow> Inl e
      | Inr spectrum \<Rightarrow>
          (let mask = map (\<lambda>m. threshold \<le> m)
                        (py_slice 1 (length (freq_positive self) + 1) spectrum)
           in if \<not> list_ex (\<lambda>b. b) mask then Inr (0, 0, 0)
              else
                (let indices = filter (\<lambda>i. mask ! i) [0..<length mask];
                     low_freq = freq_positive self ! hd indices;
                     high_freq = freq_positive self ! last indices;
                     bandwidth = high_freq - low_freq
                 in Inr (low_freq, high_freq, bandwidth))))"

subsection \<open>Predicates of the statements\<close>

text \<open>A flat run \<open>l \<dots> r\<close> of \<open>x\<close> strictly inside the array, with a strictly lower
  sample on either side.\<close>

definition flat_peak :: "real list \<Rightarrow> nat \<Rightarrow> nat \<Rightarrow> bool" where
  "flat_peak x l r \<longleftrightarrow>
     0 < l \<and> l \<le> r \<and> r + 1 < length x
     \<and> (\<forall>j\<in>{l..r}. x ! j = x ! l)
     \<and> x ! (l - 1) < x ! l \<and> x ! (r + 1) < x ! l"

section \<open>Properties\<close>

subsection \<open>Reductions\<close>

lemma fold_max_Max: "fold max xs (a::real) = Max (insert a (set xs))"
proof (induction xs arbitrary: a)
  case Nil
  show ?case by simp
next
  case (Cons x xs)
  have "Max (insert (max x a) (set xs)) = Max (insert a (insert x (set xs)))"
    by (cases "set xs = {}") (simp_all add: max.commute max.left_commute)
  with Cons show ?case by simp
qed

lemma fold_min_Min: "fold min xs (a::real) = Min (insert a (set xs))"
proof (induction xs arbitrary: a)
  case Nil
  show ?case by simp
next
  case (Cons x xs)
  have "Min (insert (min x a) (set xs)) = Min (insert a (insert x (set xs)))"
    by (cases "set xs = {}") (simp_all add: min.commute min.left_commute)
  with Cons show ?case by simp
qed

lemma np_max_Max: "xs \<noteq> [] \<Longrightarrow> np_max xs = Max (set xs)"
  by (cases xs) (simp_all add: np_max_def fold_max_Max)

lemma np_min_Min: "xs \<noteq> [] \<Longrightarrow> np_min xs = Min (set xs)"
  by (cases xs) (simp_all add: np_min_def fold_min_Min)

subsection \<open>The grid\<close>

lemma linspace_ge2:
  assumes "2 \<le> n"
  shows "\<exists>ts. linspace 0 tm n = Inr ts \<and> length ts = nat n \<and> ts ! 0 = 0
     \<and> ts ! 1 = tm / real_of_int (n - 1)"
proof -
  let ?step = "(tm - 0) / real_of_int (n - 1)"
  let ?y = "map (\<lambda>i. real i * ?step + 0) [0..<nat n]"
  have l: "linspace 0 tm n = Inr (?y[nat n - 1 := tm])"
    using assms by (simp add: linspace_def Let_def)
  have n2: "2 \<le> nat n" using assms by simp
  have z: "(?y[nat n - 1 := tm]) ! 0 = 0"
  proof -
    have "nat n - 1 \<noteq> 0" "0 < nat n" using n2 by auto
    then show ?thesis by (simp add: nth_list_update)
  qed
  have o: "(?y[nat n - 1 := tm]) ! 1 = tm / real_of_int (n - 1)"
  proof (cases "n = 2")
    case True
    then show ?thesis by (simp add: nth_list_update)
  next
    case False
    then have "nat n - 1 \<noteq> 1" "1 < nat n" using assms by auto
    then show ?thesis by (simp add: nth_list_update)
  qed
  show ?thesis using l z o by simp
qed

lemma fftfreq_prefix:
  assumes "2 \<le> n"
  shows "py_prefix (n div 2) (fftfreq n d)
     = map (\<lambda>k. real k * (1 / (real_of_int n * d))) [0..<nat (n div 2)]"
proof -
  let ?N = "(n - 1) div 2 + 1"
  let ?L = "[0..?N - 1] @ [- (n div 2)..- 1]"
  let ?f = "\<lambda>k. real_of_int k * (1 / (real_of_int n * d))"
  have le: "n div 2 \<le> ?N" by linarith
  have pos: "0 \<le> n div 2" using assms by simp
  have a: "take (nat (n div 2)) ?L = map int [0..<nat (n div 2)]"
  proof (rule nth_equalityI)
    show "length (take (nat (n div 2)) ?L) = length (map int [0..<nat (n div 2)])"
      using le pos by simp
  next
    fix i assume "i < length (take (nat (n div 2)) ?L)"
    then have i: "i < nat (n div 2)" by simp
    then have "int i < ?N" using le by linarith
    then show "take (nat (n div 2)) ?L ! i = map int [0..<nat (n div 2)] ! i"
      using i by (simp add: nth_append)
  qed
  have "py_prefix (n div 2) (fftfreq n d) = take (nat (n div 2)) (map ?f ?L)"
    unfolding py_prefix_def fftfreq_def Let_def using pos by (simp only: if_True)
  also have "\<dots> = map ?f (take (nat (n div 2)) ?L)"
    by (rule take_map)
  also have "\<dots> = map ?f (map int [0..<nat (n div 2)])"
    by (simp only: a)
  also have "\<dots> = map (\<lambda>k. real k * (1 / (real_of_int n * d))) [0..<nat (n div 2)]"
    by (simp add: o_def)
  finally show ?thesis .
qed

lemma init_params_ge2:
  assumes "2 \<le> n_samples c"
  shows "\<exists>g. init_time_freq_params c = Inr g \<and> config g = c
     \<and> length (t g) = nat (n_samples c)
     \<and> dt g = t_max c / real_of_int (n_samples c - 1)
     \<and> n_freq g = n_samples c div 2
     \<and> freq g = map (\<lambda>k. real k * (1 / (real_of_int (n_samples c) * dt g)))
                   [0..<nat (n_samples c div 2)]
     \<and> freq_positive g = filter (\<lambda>f. 0 < f) (freq g)"
proof -
  obtain ts where ts: "linspace 0 (t_max c) (n_samples c) = Inr ts"
    "length ts = nat (n_samples c)" "ts ! 0 = 0"
    "ts ! 1 = t_max c / real_of_int (n_samples c - 1)"
    using linspace_ge2 [OF assms] by blast
  have len: "\<not> length ts \<le> 1" using ts(2) assms by simp
  show ?thesis
    using ts len by (simp add: init_time_freq_params_def Let_def fftfreq_prefix [OF assms])
qed

lemma init_params_lt2:
  assumes "n_samples c < 2"
  shows "init_time_freq_params c = Inl (if n_samples c < 0 then ValueError else IndexError)"
proof -
  consider "n_samples c < 0" | "n_samples c = 0" | "n_samples c = 1"
    using assms by linarith
  then show ?thesis
    by cases (simp_all add: init_time_freq_params_def linspace_def)
qed

lemma init_params_Inr:
  assumes "init_time_freq_params c = Inr g"
  shows "2 \<le> n_samples c \<and> config g = c
     \<and> dt g = t_max c / real_of_int (n_samples c - 1)
     \<and> n_freq g = n_samples c div 2
     \<and> freq g = map (\<lambda>k. real k * (1 / (real_of_int (n_samples c) * dt g)))
                   [0..<nat (n_samples c div 2)]
     \<and> freq_positive g = filter (\<lambda>f. 0 < f) (freq g)"
proof -
  have n: "2 \<le> n_samples c"
  proof (rule ccontr)
    assume "\<not> 2 \<le> n_samples c"
    then have "n_samples c < 2" by simp
    from init_params_lt2 [OF this] assms show False by simp
  qed
  from init_params_ge2 [OF n] obtain g' where g': "init_time_freq_params c = Inr g'"
    "config g' = c" "dt g' = t_max c / real_of_int (n_samples c - 1)"
    "n_freq g' = n_samples c div 2"
    "freq g' = map (\<lambda>k. real k * (1 / (real_of_int (n_samples c) * dt g')))
                   [0..<nat (n_samples c div 2)]"
    "freq_positive g' = filter (\<lambda>f. 0 < f) (freq g')"
    by blast
  from g'(1) assms have "g' = g" by simp
  with g' n show ?thesis by blast
qed

text \<open>The bins \<open>k * v\<close> for \<open>k < m\<close>: ascending and positive after the first when
  \<open>v\<close> is positive, never positive otherwise.\<close>

lemma bins_sorted:
  assumes "0 < (v::real)"
  shows "sorted_wrt (<) (map (\<lambda>k. real k * v) [0..<m])"
  using assms by (simp add: sorted_wrt_iff_nth_less)

lemma bins_filter_pos:
  assumes "0 < (v::real)"
  shows "filter (\<lambda>f. 0 < f) (map (\<lambda>k. real k * v) [0..<m]) = tl (map (\<lambda>k. real k * v) [0..<m])"
proof (cases m)
  case 0
  then show ?thesis by simp
next
  case (Suc m')
  have u: "[0..<Suc m'] = 0 # [Suc 0..<Suc m']" by (simp add: upt_conv_Cons)
  have "filter (\<lambda>f. 0 < f) (map (\<lambda>k. real k * v) [Suc 0..<Suc m'])
      = map (\<lambda>k. real k * v) [Suc 0..<Suc m']"
    using assms by (intro filter_True) auto
  then show ?thesis unfolding Suc u by simp
qed

lemma bins_filter_nonpos:
  assumes "(v::real) \<le> 0"
  shows "filter (\<lambda>f. 0 < f) (map (\<lambda>k. real k * v) [0..<m]) = []"
  using assms by (auto simp: filter_empty_conv mult_le_0_iff not_less)

text \<open>
  C8. For every valid construction (\<open>t_max > 0\<close>, \<open>n_samples \<ge> 2\<close>) the grid is built
  and has: \<open>dt = t_max / (n_samples - 1)\<close>; \<open>freq\<close> with exactly
  \<open>n_samples div 2\<close> entries, \<open>freq[k] = k / (n_samples * dt)\<close>, sorted ascending;
  \<open>freq_positive\<close> the entries of \<open>freq\<close> above \<open>0\<close>, which are all but the first
  one, so that \<open>len(freq_positive) = len(freq) - 1\<close>. The operations below take the
  grid as an argument and return only their result, so none of them changes it.
\<close>

theorem grid_invariant:
  assumes "0 < t_max (merged_config cfg)" and "2 \<le> n_samples (merged_config cfg)"
  shows "\<exists>g. init cfg = Inr g \<and> config g = merged_config cfg
     \<and> dt g = t_max (config g) / real_of_int (n_samples (config g) - 1)
     \<and> length (freq g) = nat (n_samples (config g) div 2)
     \<and> (\<forall>k<length (freq g).
           freq g ! k = real k / (real_of_int (n_samples (config g)) * dt g))
     \<and> sorted (freq g)
     \<and> freq_positive g = filter (\<lambda>f. 0 < f) (freq g)
     \<and> freq_positive g = tl (freq g)
     \<and> length (freq_positive g) + 1 = length (freq g)"
proof -
  let ?c = "merged_config cfg"
  obtain g where g: "init_time_freq_params ?c = Inr g" "config g = ?c"
    "dt g = t_max ?c / real_of_int (n_samples ?c - 1)"
    "freq g = map (\<lambda>k. real k * (1 / (real_of_int (n_samples ?c) * dt g)))
                [0..<nat (n_samples ?c div 2)]"
    "freq_positive g = filter (\<lambda>f. 0 < f) (freq g)"
    using init_params_ge2 [OF assms(2)] by blast
  have dpos: "0 < dt g" using assms g(3) by simp
  have vpos: "0 < 1 / (real_of_int (n_samples ?c) * dt g)"
    using dpos assms(2) by simp
  have len: "length (freq g) = nat (n_samples ?c div 2)" using g(4) by simp
  have m: "0 < nat (n_samples ?c div 2)" using assms(2) by simp
  have nth: "\<forall>k<length (freq g). freq g ! k = real k / (real_of_int (n_samples ?c) * dt g)"
    using g(4) by simp
  have "sorted_wrt (<) (freq g)"
    unfolding g(4) using vpos by (rule bins_sorted)
  then have srt: "sorted (freq g)"
    by (rule sorted_wrt_mono_rel [rotated]) simp
  have tl: "freq_positive g = tl (freq g)"
    unfolding g(5) unfolding g(4) using vpos by (rule bins_filter_pos)
  have l1: "length (freq_positive g) + 1 = length (freq g)"
    using tl len m by simp
  show ?thesis
    using g(1,2,3,5) len nth srt tl l1 by (simp add: init_def)
qed

theorem grid_invariant_witness:
  "0 < t_max (merged_config (Some \<lparr>arg_t_max = Some (7 / 8), arg_n_samples = Some 8\<rparr>))
   \<and> 2 \<le> n_samples (merged_config (Some \<lparr>arg_t_max = Some (7 / 8), arg_n_samples = Some 8\<rparr>))
   \<and> (\<exists>g. init (Some \<lparr>arg_t_max = Some (7 / 8), arg_n_samples = Some 8\<rparr>) = Inr g
        \<and> dt g = 1 / 8 \<and> length (freq g) = 4 \<and> length (freq_positive g) = 3)"
proof -
  let ?cfg = "Some \<lparr>arg_t_max = Some (7 / 8), arg_n_samples = Some 8\<rparr>"
  have h1: "0 < t_max (merged_config ?cfg)"
    by (simp add: merged_config_def config_update_def)
  have h2: "2 \<le> n_samples (merged_config ?cfg)"
    by (simp add: merged_config_def config_update_def)
  have c: "merged_config ?cfg = \<lparr>t_max = 7 / 8, n_samples = 8\<rparr>"
    by (simp add: merged_config_def config_update_def)
  from grid_invariant [OF h1 h2] obtain g where g: "init ?cfg = Inr g"
    "config g = merged_config ?cfg"
    "dt g = t_max (config g) / real_of_int (n_samples (config g) - 1)"
    "length (freq g) = nat (n_samples (config g) div 2)"
    "length (freq_positive g) + 1 = length (freq g)"
    by blast
  have "dt g = 1 / 8" using g(2,3) c by simp
  moreover have "length (freq g) = 4" using g(2,4) c by simp
  moreover have "length (freq_positive g) = 3" using g(2,4,5) c by simp
  ultimately show ?thesis using h1 h2 g(1) by blast
qed

subsection \<open>Construction with invalid parameters\<close>

text \<open>
  C6, as the code has it. The constructor validates nothing itself. With
  \<open>n_samples < 2\<close> it fails, by the library's error and not by one of its own:
  ValueError from \<^verbatim>\<open>np.linspace\<close> for a negative count, IndexError from reading
  \<^verbatim>\<open>self.t[1]\<close> for \<open>0\<close> and \<open>1\<close>, and no analyzer is returned. \<open>t_max\<close> is never
  checked: with \<open>n_samples \<ge> 2\<close> construction returns an analyzer for every \<open>t_max\<close>,
  and for \<open>t_max < 0\<close> its \<open>dt\<close> is negative and its \<open>freq_positive\<close> is empty.
\<close>

theorem init_invalid_parameters:
  "(n_samples (merged_config cfg) < 2 \<longrightarrow>
      init cfg = Inl (if n_samples (merged_config cfg) < 0 then ValueError else IndexError))
   \<and> (2 \<le> n_samples (merged_config cfg) \<longrightarrow>
        (\<exists>g. init cfg = Inr g \<and> config g = merged_config cfg
           \<and> (t_max (merged_config cfg) < 0 \<longrightarrow> dt g < 0 \<and> freq_positive g = [])))"
proof (intro conjI impI)
  assume "n_samples (merged_config cfg) < 2"
  then show "init cfg = Inl (if n_samples (merged_config cfg) < 0 then ValueError else IndexError)"
    unfolding init_def by (rule init_params_lt2)
next
  let ?c = "merged_config cfg"
  assume n: "2 \<le> n_samples ?c"
  obtain g where g: "init_time_freq_params ?c = Inr g" "config g = ?c"
    "dt g = t_max ?c / real_of_int (n_samples ?c - 1)"
    "freq g = map (\<lambda>k. real k * (1 / (real_of_int (n_samples ?c) * dt g)))
                [0..<nat (n_samples ?c div 2)]"
    "freq_positive g = filter (\<lambda>f. 0 < f) (freq g)"
    using init_params_ge2 [OF n] by blast
  have "dt g < 0 \<and> freq_positive g = []" if neg: "t_max ?c < 0"
  proof -
    have d: "dt g < 0" using neg n g(3) by (simp add: divide_neg_pos)
    have "real_of_int (n_samples ?c) * dt g < 0"
      using d n by (simp add: mult_pos_neg)
    then have "1 / (real_of_int (n_samples ?c) * dt g) \<le> 0" by simp
    then have "freq_positive g = []"
      unfolding g(5) unfolding g(4) by (rule bins_filter_nonpos)
    with d show ?thesis by simp
  qed
  with g(1,2) show "\<exists>g. init cfg = Inr g \<and> config g = ?c
           \<and> (t_max ?c < 0 \<longrightarrow> dt g < 0 \<and> freq_positive g = [])"
    by (auto simp: init_def)
qed

theorem init_invalid_parameters_witness:
  "n_samples (merged_config (Some \<lparr>arg_t_max = None, arg_n_samples = Some 1\<rparr>)) < 2
   \<and> init (Some \<lparr>arg_t_max = None, arg_n_samples = Some 1\<rparr>) = Inl IndexError
   \<and> 2 \<le> n_samples (merged_config (Some \<lparr>arg_t_max = Some (- 1), arg_n_samples = Some 2\<rparr>))
   \<and> t_max (merged_config (Some \<lparr>arg_t_max = Some (- 1), arg_n_samples = Some 2\<rparr>)) < 0
   \<and> (\<exists>g. init (Some \<lparr>arg_t_max = Some (- 1), arg_n_samples = Some 2\<rparr>) = Inr g
        \<and> dt g < 0 \<and> freq_positive g = [])"
  using init_invalid_parameters [of "Some \<lparr>arg_t_max = None, arg_n_samples = Some 1\<rparr>"]
    init_invalid_parameters [of "Some \<lparr>arg_t_max = Some (- 1), arg_n_samples = Some 2\<rparr>"]
  by (auto simp: merged_config_def config_update_def default_config_def)

text \<open>The claim as the specification states it fails: a negative \<open>t_max\<close> with two
  samples builds this grid.\<close>

theorem init_negative_t_max_counterexample:
  "t_max (merged_config (Some \<lparr>arg_t_max = Some (- 1), arg_n_samples = Some 2\<rparr>)) \<le> 0
   \<and> init (Some \<lparr>arg_t_max = Some (- 1), arg_n_samples = Some 2\<rparr>)
     = Inr \<lparr>config = \<lparr>t_max = - 1, n_samples = 2\<rparr>, t = [0, - 1], dt = - 1,
            n_freq = 1, freq = [0], freq_positive = []\<rparr>"
  by (simp add: init_def merged_config_def config_update_def default_config_def
      init_time_freq_params_def linspace_def fftfreq_def py_prefix_def Let_def
      upt_conv_Cons upto.simps)

subsection \<open>The spectrum\<close>

lemma py_prefix_map: "py_prefix k (map f xs) = map f (py_prefix k xs)"
  by (simp add: py_prefix_def take_map)

lemma length_py_prefix: "0 \<le> k \<Longrightarrow> length (py_prefix k xs) = min (nat k) (length xs)"
  by (simp add: py_prefix_def min.commute)

lemma compute_spectrum_raw:
  assumes "wave \<noteq> []"
  shows "compute_spectrum self wave False
     = Inr (map (\<lambda>z. cmod z / real_of_int (n_samples (config self)))
              (py_prefix (n_freq self) (map (dft_bin wave) [0..<length wave])))"
  using assms by (simp add: compute_spectrum_def fft_def)

lemma compute_spectrum_empty: "compute_spectrum self [] normalise = Inl ValueError"
  by (simp add: compute_spectrum_def fft_def)

lemma compute_spectrum_normalised:
  assumes "compute_spectrum self wave False = Inr raw"
  shows "compute_spectrum self wave True
     = (if raw = [] then Inl ValueError
        else if 0 < np_max raw then Inr (map (\<lambda>m. m / np_max raw) raw)
        else Inr raw)"
  using assms by (auto simp: compute_spectrum_def Let_def split: sum.splits)

lemma raw_nonneg:
  assumes "compute_spectrum self wave False = Inr raw" and "0 \<le> n_samples (config self)"
    and "x \<in> set raw"
  shows "0 \<le> x"
  using assms by (auto simp: compute_spectrum_def Let_def split: sum.splits)

lemma raw_length:
  assumes "compute_spectrum self wave False = Inr raw" and "0 \<le> n_freq self"
  shows "length raw = min (nat (n_freq self)) (length wave)"
proof -
  have "wave \<noteq> []" using assms(1) by (auto simp: compute_spectrum_empty)
  from compute_spectrum_raw [OF this, of self] assms(1)
  have "raw = map (\<lambda>z. cmod z / real_of_int (n_samples (config self)))
              (py_prefix (n_freq self) (map (dft_bin wave) [0..<length wave]))"
    by simp
  then show ?thesis using assms(2) by (simp add: length_py_prefix)
qed

lemma dft_bin_scale: "dft_bin (map ((*) a) xs) k = complex_of_real a * dft_bin xs k"
  by (simp add: dft_bin_def sum_distrib_left mult.assoc)

text \<open>Evaluating the transform of a concrete wave: the sum as a list, and the
  values of \<open>cis\<close> at multiples of a quarter turn.\<close>

lemma dft_bin_sum_list:
  "dft_bin xs k = (\<Sum>j\<leftarrow>[0..<length xs]. complex_of_real (xs ! j) *
         cis (- (2 * pi * real k * real j / real (length xs))))"
  by (simp add: dft_bin_def interv_sum_list_conv_sum_set_nat atLeast0LessThan)

lemma cis_quarter_turns:
  "cis (- (real m * pi / 2))
     = (if m mod 4 = 0 then 1 else if m mod 4 = 1 then - \<i>
        else if m mod 4 = 2 then - 1 else \<i>)"
proof -
  have p2: "(- \<i>) ^ 2 = - 1" by (simp add: power2_eq_square)
  have p3: "(- \<i>) ^ 3 = \<i>" by (simp add: power3_eq_cube)
  have "cis (- (real m * pi / 2)) = cis (real m * (- (pi / 2)))" by simp
  also have "\<dots> = (- \<i>) ^ m" by (simp only: DeMoivre [symmetric] cis_minus_pi_half)
  also have "\<dots> = ((- \<i>) ^ 4) ^ (m div 4) * (- \<i>) ^ (m mod 4)"
    by (simp only: power_mult [symmetric] power_add [symmetric] mult_div_mod_eq)
  also have "(- \<i>) ^ 4 = 1"
  proof -
    have "(- \<i>) ^ 4 = ((- \<i>) ^ 2) ^ 2" by (simp only: power_mult [symmetric]) simp
    then show ?thesis by (simp add: power2_eq_square)
  qed
  finally have e: "cis (- (real m * pi / 2)) = (- \<i>) ^ (m mod 4)" by simp
  have "m mod 4 = 0 \<or> m mod 4 = 1 \<or> m mod 4 = 2 \<or> m mod 4 = 3" by presburger
  then show ?thesis
  proof (elim disjE)
    assume "m mod 4 = 0" then show ?thesis using e by simp
  next
    assume "m mod 4 = 1" then show ?thesis using e by simp
  next
    assume "m mod 4 = 2" then show ?thesis using e p2 by simp
  next
    assume "m mod 4 = 3" then show ?thesis using e p3 by simp
  qed
qed

lemma cis_quarter_numeral:
  "cis (- (numeral n * pi / 2))
     = (if (numeral n :: nat) mod 4 = 0 then 1 else if (numeral n :: nat) mod 4 = 1 then - \<i>
        else if (numeral n :: nat) mod 4 = 2 then - 1 else \<i>)"
  using cis_quarter_turns [of "numeral n"] by simp

lemma cis_quarter_numeral_commuted:
  "cis (- (pi * numeral n / 2))
     = (if (numeral n :: nat) mod 4 = 0 then 1 else if (numeral n :: nat) mod 4 = 1 then - \<i>
        else if (numeral n :: nat) mod 4 = 2 then - 1 else \<i>)"
  using cis_quarter_turns [of "numeral n"] by (simp add: mult.commute)

lemma cis_half_turns: "cis (- (real m * pi)) = (if even m then 1 else - 1)"
proof -
  have "cis (- (real m * pi)) = cis (real m * (- pi))" by simp
  also have "\<dots> = cis (- pi) ^ m" by (simp only: DeMoivre)
  also have "cis (- pi) = - 1" using cis_quarter_turns [of 2] by simp
  finally show ?thesis by (simp add: uminus_power_if)
qed

lemma cis_half_numeral:
  "cis (- (numeral n * pi)) = (if even (numeral n :: nat) then 1 else - 1)"
  using cis_half_turns [of "numeral n"] by simp

lemma cis_half_numeral_commuted:
  "cis (- (pi * numeral n)) = (if even (numeral n :: nat) then 1 else - 1)"
  using cis_half_turns [of "numeral n"] by (simp add: mult.commute)

lemma cis_minus_pi: "cis (- pi) = - 1"
  using cis_half_turns [of 1] by simp

lemmas cis_eval = cis_quarter_numeral cis_quarter_numeral_commuted cis_half_numeral
  cis_half_numeral_commuted cis_minus_pi

lemma py_prefix_upt: "0 \<le> k \<Longrightarrow> nat k \<le> n \<Longrightarrow> py_prefix k [0..<n] = [0..<nat k]"
  by (simp add: py_prefix_def min_def)

text \<open>The grid of two samples over one second, the smallest a constructor builds.\<close>

lemma init_two_samples:
  "init (Some \<lparr>arg_t_max = None, arg_n_samples = Some 2\<rparr>)
     = Inr \<lparr>config = \<lparr>t_max = 1, n_samples = 2\<rparr>, t = [0, 1], dt = 1,
            n_freq = 1, freq = [0], freq_positive = []\<rparr>"
  by (simp add: init_def merged_config_def config_update_def default_config_def
      init_time_freq_params_def linspace_def fftfreq_def py_prefix_def Let_def
      upt_conv_Cons upto.simps)

text \<open>A grid of eight samples with bins at \<open>0, 1, 2, 3\<close> Hz, and on it the wave
  \<open>cos (2\<pi> * 2 * j / 8)\<close>, whose content is in bin \<open>2\<close> alone.\<close>

lemma init_eight_samples:
  "init (Some \<lparr>arg_t_max = Some (7 / 8), arg_n_samples = Some 8\<rparr>)
     = Inr \<lparr>config = \<lparr>t_max = 7 / 8, n_samples = 8\<rparr>,
            t = [0, 1 / 8, 2 / 8, 3 / 8, 4 / 8, 5 / 8, 6 / 8, 7 / 8], dt = 1 / 8,
            n_freq = 4, freq = [0, 1, 2, 3], freq_positive = [1, 2, 3]\<rparr>"
  by (simp add: init_def merged_config_def config_update_def default_config_def
      init_time_freq_params_def linspace_def fftfreq_def py_prefix_def Let_def
      upt_conv_Cons upto.simps)

lemma dft_bins_eight:
  "map (dft_bin [1, 0, - 1, 0, 1, 0, - 1, 0]) [0..<4] = [0, 0, 4, 0]"
  by (simp add: dft_bin_sum_list upt_conv_Cons cis_eval)

lemma spectrum_eight_raw:
  assumes "n_freq g = 4" and "n_samples (config g) = 8"
  shows "compute_spectrum g [1, 0, - 1, 0, 1, 0, - 1, 0] False = Inr [0, 0, 1 / 2, 0]"
proof -
  have "compute_spectrum g [1, 0, - 1, 0, 1, 0, - 1, 0] False
     = Inr (map (\<lambda>z. cmod z / 8) (map (dft_bin [1, 0, - 1, 0, 1, 0, - 1, 0]) [0..<4]))"
    using assms by (simp add: compute_spectrum_raw py_prefix_map py_prefix_upt del: upt_Suc)
  then show ?thesis unfolding dft_bins_eight by simp
qed

lemma spectrum_eight_normalised:
  assumes "n_freq g = 4" and "n_samples (config g) = 8"
  shows "compute_spectrum g [1, 0, - 1, 0, 1, 0, - 1, 0] True = Inr [0, 0, 1, 0]"
  unfolding compute_spectrum_normalised [OF spectrum_eight_raw [OF assms]]
  by (simp add: np_max_def)

text \<open>
  C7. For every scalar \<open>a > 0\<close> the raw spectrum is homogeneous:
  \<open>compute_spectrum(a * wave, normalize=False)\<close> is \<open>a\<close> times
  \<open>compute_spectrum(wave, normalize=False)\<close>, entry by entry (and both calls raise
  on the empty wave). Shown for waves of every length, in exact arithmetic.
\<close>

theorem compute_spectrum_homogeneous:
  assumes "0 < a"
  shows "compute_spectrum self (map ((*) a) wave) False
     = map_sum id (map ((*) a)) (compute_spectrum self wave False)"
proof (cases "wave = []")
  case True
  then show ?thesis by (simp add: compute_spectrum_empty)
next
  case False
  have c: "cmod (complex_of_real a * z) = a * cmod z" for z
    using assms by (simp add: norm_mult)
  show ?thesis
    using False
    by (simp add: compute_spectrum_raw py_prefix_map o_def dft_bin_scale c)
qed

theorem compute_spectrum_homogeneous_witness:
  "(0::real) < 2
   \<and> compute_spectrum \<lparr>config = \<lparr>t_max = 1, n_samples = 2\<rparr>, t = [0, 1], dt = 1,
         n_freq = 1, freq = [0], freq_positive = []\<rparr> (map ((*) 2) [1, 1]) False
     = map_sum id (map ((*) 2))
         (compute_spectrum \<lparr>config = \<lparr>t_max = 1, n_samples = 2\<rparr>, t = [0, 1], dt = 1,
            n_freq = 1, freq = [0], freq_positive = []\<rparr> [1, 1] False)"
  using compute_spectrum_homogeneous [of 2 "\<lparr>config = \<lparr>t_max = 1, n_samples = 2\<rparr>,
    t = [0, 1], dt = 1, n_freq = 1, freq = [0], freq_positive = []\<rparr>" "[1, 1]"]
  by simp

lemma init_Inr:
  assumes "init cfg = Inr g"
  shows "2 \<le> n_samples (config g) \<and> n_freq g = n_samples (config g) div 2
     \<and> freq g = map (\<lambda>k. real k * (1 / (real_of_int (n_samples (config g)) * dt g)))
                   [0..<nat (n_samples (config g) div 2)]
     \<and> freq_positive g = filter (\<lambda>f. 0 < f) (freq g)"
  using init_params_Inr [of "merged_config cfg" g] assms by (simp add: init_def)

lemma freq_positive_facts:
  assumes "init cfg = Inr g"
  shows "sorted_wrt (<) (freq_positive g)" and "\<forall>f\<in>set (freq_positive g). 0 < f"
    and "length (freq_positive g) < nat (n_freq g)"
    and "0 < t_max (config g) \<Longrightarrow> freq_positive g = tl (freq g)"
proof -
  let ?n = "n_samples (config g)"
  let ?v = "1 / (real_of_int ?n * dt g)"
  have g: "2 \<le> ?n" "n_freq g = ?n div 2"
    "freq g = map (\<lambda>k. real k * ?v) [0..<nat (?n div 2)]"
    "freq_positive g = filter (\<lambda>f. 0 < f) (freq g)"
    using init_Inr [OF assms] by simp_all
  have d: "dt g = t_max (config g) / real_of_int (?n - 1)"
    using init_params_Inr [of "merged_config cfg" g] assms by (simp add: init_def)
  show "\<forall>f\<in>set (freq_positive g). 0 < f" using g(4) by simp
  have m: "0 < nat (?n div 2)" using g(1) by simp
  have pos: "freq_positive g = tl (freq g)" "sorted_wrt (<) (freq g)" if "0 < ?v"
  proof -
    show "freq_positive g = tl (freq g)"
      unfolding g(4) unfolding g(3) using that by (rule bins_filter_pos)
    show "sorted_wrt (<) (freq g)" unfolding g(3) using that by (rule bins_sorted)
  qed
  have nonpos: "freq_positive g = []" if "\<not> 0 < ?v"
  proof -
    from that have "?v \<le> 0" by simp
    then show ?thesis unfolding g(4) unfolding g(3) by (rule bins_filter_nonpos)
  qed
  show "sorted_wrt (<) (freq_positive g)"
  proof (cases "0 < ?v")
    case True
    from pos(2) [OF True] show ?thesis unfolding g(4) by (rule sorted_wrt_filter)
  next
    case False
    from nonpos [OF False] show ?thesis by simp
  qed
  have lf: "length (freq g) = nat (?n div 2)" using g(3) by simp
  have "length (freq_positive g) \<le> length (freq g) - 1"
  proof (cases "0 < ?v")
    case True
    from pos(1) [OF True] show ?thesis by simp
  next
    case False
    from nonpos [OF False] show ?thesis by simp
  qed
  then show "length (freq_positive g) < nat (n_freq g)" using m g(2) lf by simp
  show "freq_positive g = tl (freq g)" if "0 < t_max (config g)"
  proof -
    have "0 < dt g" using that d g(1) by simp
    then have "0 < ?v" using g(1) by simp
    then show ?thesis by (rule pos(1))
  qed
qed

lemma normalised_Max:
  assumes "raw \<noteq> []" and "0 < Max (set raw)"
  shows "Max (set (map (\<lambda>m. m / Max (set raw)) raw)) = (1::real)"
proof (rule Max_eqI)
  show "finite (set (map (\<lambda>m. m / Max (set raw)) raw))" by simp
next
  fix y assume "y \<in> set (map (\<lambda>m. m / Max (set raw)) raw)"
  then obtain m where m: "m \<in> set raw" "y = m / Max (set raw)" by auto
  then have "m \<le> Max (set raw)" by simp
  with assms(2) m(2) show "y \<le> 1" by simp
next
  have "Max (set raw) \<in> set raw" using assms(1) by (intro Max_in) simp_all
  then have "Max (set raw) / Max (set raw) \<in> set (map (\<lambda>m. m / Max (set raw)) raw)"
    by (simp add: image_iff) blast
  with assms(2) show "1 \<in> set (map (\<lambda>m. m / Max (set raw)) raw)" by simp
qed

lemma normalised_spectrum_facts:
  assumes "init cfg = Inr g" and "int (length wave) = n_samples (config g)"
  shows "\<exists>raw s. compute_spectrum g wave False = Inr raw
     \<and> compute_spectrum g wave True = Inr s
     \<and> length s = nat (n_samples (config g) div 2)
     \<and> (\<forall>x\<in>set s. 0 \<le> x \<and> x \<le> 1)
     \<and> 0 \<le> Max (set raw)
     \<and> (0 < Max (set raw) \<longrightarrow>
          s = map (\<lambda>m. m / Max (set raw)) raw \<and> Max (set s) = 1)
     \<and> (Max (set raw) = 0 \<longrightarrow> s = raw \<and> (\<forall>x\<in>set s. x = 0))"
proof -
  have gr: "2 \<le> n_samples (config g)" "n_freq g = n_samples (config g) div 2"
    using init_Inr [OF assms(1)] by simp_all
  have wne: "wave \<noteq> []" using assms(2) gr(1) by auto
  obtain raw where raw: "compute_spectrum g wave False = Inr raw"
    using compute_spectrum_raw [OF wne] by blast
  have nf: "0 \<le> n_freq g" using gr by simp
  have "length raw = min (nat (n_freq g)) (length wave)"
    using raw nf by (rule raw_length)
  then have len: "length raw = nat (n_samples (config g) div 2)"
    using gr assms(2) by linarith
  have rne: "raw \<noteq> []" using len gr(1) by auto
  have nonneg: "0 \<le> x" if "x \<in> set raw" for x
    using raw_nonneg [OF raw _ that] gr(1) by simp
  have mx: "np_max raw = Max (set raw)" using rne by (rule np_max_Max)
  have Min: "Max (set raw) \<in> set raw" using rne by (intro Max_in) simp_all
  have M0: "0 \<le> Max (set raw)" using nonneg [OF Min] .
  let ?s = "if 0 < Max (set raw) then map (\<lambda>m. m / Max (set raw)) raw else raw"
  have s: "compute_spectrum g wave True = Inr ?s"
    using compute_spectrum_normalised [OF raw] rne mx by simp
  have ls: "length ?s = nat (n_samples (config g) div 2)" using len by simp
  have zero: "x = 0" if "x \<in> set raw" "Max (set raw) = 0" for x
  proof -
    have "x \<le> Max (set raw)" using that(1) by simp
    with that(2) nonneg [OF that(1)] show ?thesis by simp
  qed
  have rng: "\<forall>x\<in>set ?s. 0 \<le> x \<and> x \<le> 1"
  proof (cases "0 < Max (set raw)")
    case True
    have "0 \<le> m / Max (set raw) \<and> m / Max (set raw) \<le> 1" if "m \<in> set raw" for m
    proof -
      have "m \<le> Max (set raw)" using that by simp
      with True nonneg [OF that] show ?thesis by simp
    qed
    with True show ?thesis by auto
  next
    case False
    with M0 have M: "Max (set raw) = 0" by simp
    have "0 \<le> x \<and> x \<le> 1" if "x \<in> set raw" for x
      using zero [OF that M] by simp
    with False show ?thesis by simp
  qed
  have pos: "0 < Max (set raw) \<longrightarrow>
      ?s = map (\<lambda>m. m / Max (set raw)) raw \<and> Max (set ?s) = 1"
    using normalised_Max [OF rne] by simp
  have z: "Max (set raw) = 0 \<longrightarrow> ?s = raw \<and> (\<forall>x\<in>set ?s. x = 0)"
    using zero by simp
  show ?thesis
    using raw s ls rng M0 pos z by blast
qed

text \<open>
  C2, as the code has it. On a constructed grid and for every wave of length
  \<open>n_samples\<close>, \<open>compute_spectrum(wave, normalize=True)\<close> returns \<open>n_samples div 2\<close>
  values, all in \<open>[0, 1]\<close>. The raw magnitudes (scaled by \<open>1 / n_samples\<close>) are never
  negative. If their maximum is strictly positive, every value is divided by it and the
  maximum of the result is \<open>1\<close>; if it is \<open>0\<close>, the raw spectrum, all zero, is returned
  unchanged and nothing is divided. The maximum is \<open>1\<close> under that condition on the raw
  maximum, which a non-zero wave need not meet.
\<close>

theorem compute_spectrum_normalize:
  assumes "init cfg = Inr g" and "int (length wave) = n_samples (config g)"
  shows "\<exists>raw s. compute_spectrum g wave False = Inr raw
     \<and> compute_spectrum g wave True = Inr s
     \<and> length s = nat (n_samples (config g) div 2)
     \<and> (\<forall>x\<in>set s. 0 \<le> x \<and> x \<le> 1)
     \<and> 0 \<le> Max (set raw)
     \<and> (0 < Max (set raw) \<longrightarrow>
          s = map (\<lambda>m. m / Max (set raw)) raw \<and> Max (set s) = 1)
     \<and> (Max (set raw) = 0 \<longrightarrow> s = raw \<and> (\<forall>x\<in>set s. x = 0))"
  using normalised_spectrum_facts [OF assms] .

theorem compute_spectrum_normalize_witness:
  "init (Some \<lparr>arg_t_max = None, arg_n_samples = Some 2\<rparr>)
     = Inr \<lparr>config = \<lparr>t_max = 1, n_samples = 2\<rparr>, t = [0, 1], dt = 1,
            n_freq = 1, freq = [0], freq_positive = []\<rparr>
   \<and> int (length [1, 1 :: real]) = 2
   \<and> compute_spectrum \<lparr>config = \<lparr>t_max = 1, n_samples = 2\<rparr>, t = [0, 1], dt = 1,
            n_freq = 1, freq = [0], freq_positive = []\<rparr> [1, 1] False = Inr [1]
   \<and> 0 < Max (set [1 :: real])
   \<and> (\<exists>s. compute_spectrum \<lparr>config = \<lparr>t_max = 1, n_samples = 2\<rparr>, t = [0, 1], dt = 1,
            n_freq = 1, freq = [0], freq_positive = []\<rparr> [1, 1] True = Inr s
        \<and> length s = 1 \<and> (\<forall>x\<in>set s. 0 \<le> x \<and> x \<le> 1) \<and> Max (set s) = 1)"
proof -
  let ?g = "\<lparr>config = \<lparr>t_max = 1, n_samples = 2\<rparr>, t = [0, 1], dt = 1,
            n_freq = 1, freq = [0], freq_positive = []\<rparr>"
  have h: "int (length [1, 1 :: real]) = n_samples (config ?g)" by simp
  have r: "compute_spectrum ?g [1, 1] False = Inr [1]"
    by (simp add: compute_spectrum_def fft_def py_prefix_def dft_bin_sum_list)
  from compute_spectrum_normalize [OF init_two_samples h]
  obtain raw s where a: "compute_spectrum ?g [1, 1] False = Inr raw"
    "compute_spectrum ?g [1, 1] True = Inr s"
    "length s = nat (n_samples (config ?g) div 2)" "\<forall>x\<in>set s. 0 \<le> x \<and> x \<le> 1"
    "0 < Max (set raw) \<longrightarrow> s = map (\<lambda>m. m / Max (set raw)) raw \<and> Max (set s) = 1"
    by blast
  have raw: "raw = [1]" using a(1) r by simp
  have "Max (set s) = 1" using a(5) unfolding raw by simp
  with a(2,3,4) r show ?thesis using init_two_samples by simp
qed

text \<open>The claim as the specification states it, with the maximum \<open>1\<close> for every
  non-zero wave, fails: the alternating wave \<open>[1, -1]\<close> on the grid of two samples has
  its whole content in the bin that is dropped, and its normalized spectrum is \<open>[0]\<close>.\<close>

theorem compute_spectrum_nonzero_wave_counterexample:
  "init (Some \<lparr>arg_t_max = None, arg_n_samples = Some 2\<rparr>)
     = Inr \<lparr>config = \<lparr>t_max = 1, n_samples = 2\<rparr>, t = [0, 1], dt = 1,
            n_freq = 1, freq = [0], freq_positive = []\<rparr>
   \<and> int (length [1, - 1 :: real]) = 2
   \<and> [1, - 1] \<noteq> [0, 0 :: real]
   \<and> compute_spectrum \<lparr>config = \<lparr>t_max = 1, n_samples = 2\<rparr>, t = [0, 1], dt = 1,
            n_freq = 1, freq = [0], freq_positive = []\<rparr> [1, - 1] True = Inr [0]
   \<and> Max (set [0 :: real]) \<noteq> 1"
  using init_two_samples
  by (simp add: compute_spectrum_def fft_def py_prefix_def dft_bin_sum_list np_max_def)

subsection \<open>Waves of another length\<close>




subsection \<open>The frequency sub-range\<close>

lemma searchsorted_le: "searchsorted a v \<le> length a"
  by (simp add: searchsorted_def length_takeWhile_le)

lemma max_idx_le: "max_idx self mx \<le> length (freq_positive self)"
  by (cases mx) (simp_all add: max_idx_def searchsorted_le)

lemma min_idx_ge: "1 \<le> min_idx self mn"
  by (simp add: min_idx_def)

lemma length_freq_range:
  "length (freq_range self mn mx) = max_idx self mx - min_idx self mn"
  using max_idx_le [of self mx] by (simp add: freq_range_def py_slice_def min_def)

lemma nth_freq_range:
  assumes "j < length (freq_range self mn mx)"
  shows "freq_range self mn mx ! j = freq_positive self ! (min_idx self mn + j)"
proof -
  have "min_idx self mn + j < max_idx self mx"
    using assms by (simp add: length_freq_range)
  then show ?thesis
    using max_idx_le [of self mx] by (simp add: freq_range_def py_slice_def)
qed

lemma spectrum_range_facts:
  assumes "length (freq_positive self) < length spectrum"
  shows "length (spectrum_range self spectrum mn mx) = length (freq_range self mn mx)"
    and "j < length (freq_range self mn mx) \<Longrightarrow>
         spectrum_range self spectrum mn mx ! j = spectrum ! (min_idx self mn + j)"
proof -
  let ?a = "min_idx self mn" and ?b = "max_idx self mx"
  have b: "?b \<le> length (freq_positive self)" by (rule max_idx_le)
  have lf: "length (freq_range self mn mx) = ?b - ?a" by (rule length_freq_range)
  have "?a + (?b - ?a) \<le> length spectrum \<or> ?b - ?a = 0"
    using b assms by linarith
  then show "length (spectrum_range self spectrum mn mx) = length (freq_range self mn mx)"
    unfolding spectrum_range_def py_slice_def lf by auto
  show "spectrum_range self spectrum mn mx ! j = spectrum ! (min_idx self mn + j)"
    if "j < length (freq_range self mn mx)"
  proof -
    have "j < ?b - ?a" using that lf by simp
    then have "?a + j < ?a + (?b - ?a)" "?a + (?b - ?a) \<le> length spectrum"
      using b assms by simp_all
    then show ?thesis
      unfolding spectrum_range_def py_slice_def lf by simp
  qed
qed

subsection \<open>Dominant frequency\<close>

lemma argmax_loop_spec:
  assumes "zs = pre @ xs" and "length pre = i" and "best_i < i" and "best = zs ! best_i"
    and "\<forall>q<i. zs ! q \<le> best" and "\<forall>q<best_i. zs ! q < best"
  shows "argmax_loop xs i best_i best < length zs
     \<and> (\<forall>q<length zs. zs ! q \<le> zs ! argmax_loop xs i best_i best)
     \<and> (\<forall>q<argmax_loop xs i best_i best. zs ! q < zs ! argmax_loop xs i best_i best)"
  using assms
proof (induction xs arbitrary: pre i best_i best)
  case Nil
  then show ?case by simp
next
  case (Cons x xs)
  have zi: "zs ! i = x" using Cons.prems(1,2) by (simp add: nth_append)
  have split: "zs = (pre @ [x]) @ xs" "length (pre @ [x]) = i + 1"
    using Cons.prems(1,2) by simp_all
  show ?case
  proof (cases "best < x")
    case True
    have a: "\<forall>q<i + 1. zs ! q \<le> x"
    proof (intro allI impI)
      fix q assume "q < i + 1"
      then have "q < i \<or> q = i" by auto
      then show "zs ! q \<le> x"
      proof
        assume "q < i"
        with Cons.prems(5) have "zs ! q \<le> best" by blast
        with True show ?thesis by simp
      next
        assume "q = i"
        with zi show ?thesis by simp
      qed
    qed
    have b: "\<forall>q<i. zs ! q < x"
    proof (intro allI impI)
      fix q assume "q < i"
      with Cons.prems(5) have "zs ! q \<le> best" by blast
      with True show "zs ! q < x" by simp
    qed
    have "i < i + 1" by simp
    from Cons.IH [OF split this zi [symmetric] a b] True show ?thesis by simp
  next
    case False
    have a: "\<forall>q<i + 1. zs ! q \<le> best"
    proof (intro allI impI)
      fix q assume "q < i + 1"
      then have "q < i \<or> q = i" by auto
      then show "zs ! q \<le> best"
      proof
        assume "q < i"
        with Cons.prems(5) show ?thesis by blast
      next
        assume "q = i"
        with zi False show ?thesis by simp
      qed
    qed
    have "best_i < i + 1" using Cons.prems(3) by simp
    from Cons.IH [OF split this Cons.prems(4) a Cons.prems(6)] False show ?thesis by simp
  qed
qed

lemma argmax_spec:
  assumes "xs \<noteq> []"
  shows "\<exists>p. argmax xs = Inr p \<and> p < length xs
     \<and> (\<forall>q<length xs. xs ! q \<le> xs ! p) \<and> (\<forall>q<p. xs ! q < xs ! p)"
proof -
  from assms obtain x rest where xs: "xs = x # rest" by (cases xs) auto
  have "argmax_loop rest 1 0 x < length xs
     \<and> (\<forall>q<length xs. xs ! q \<le> xs ! argmax_loop rest 1 0 x)
     \<and> (\<forall>q<argmax_loop rest 1 0 x. xs ! q < xs ! argmax_loop rest 1 0 x)"
    by (rule argmax_loop_spec [where pre = "[x]"]) (simp_all add: xs)
  then show ?thesis by (simp add: argmax_def xs)
qed

text \<open>What \<open>find_dominant_frequency\<close> returns on a constructed grid: the sentinel for
  an empty sub-range; otherwise, for the first index \<open>p\<close> of the greatest magnitude among
  the bins \<open>min_idx + q\<close>, the magnitude of bin \<open>min_idx + p\<close> with the frequency
  \<open>freq_positive[min_idx + p]\<close>, which for \<open>t_max > 0\<close> is that of bin
  \<open>min_idx + p + 1\<close>.\<close>

lemma find_dominant_frequency_result:
  assumes "init cfg = Inr g" and "int (length wave) = n_samples (config g)"
  shows "\<exists>spectrum. compute_spectrum g wave False = Inr spectrum
     \<and> (freq_range g mn mx = [] \<longrightarrow> find_dominant_frequency g wave mn mx = Inr (0, 0))
     \<and> (freq_range g mn mx \<noteq> [] \<longrightarrow>
          (\<exists>p<length (freq_range g mn mx).
             find_dominant_frequency g wave mn mx
               = Inr (freq_positive g ! (min_idx g mn + p), spectrum ! (min_idx g mn + p))
           \<and> (\<forall>q<length (freq_range g mn mx).
                  spectrum ! (min_idx g mn + q) \<le> spectrum ! (min_idx g mn + p))
           \<and> (\<forall>q<p. spectrum ! (min_idx g mn + q) < spectrum ! (min_idx g mn + p))
           \<and> (0 < t_max (config g) \<longrightarrow>
                  freq_positive g ! (min_idx g mn + p) = freq g ! (min_idx g mn + p + 1))))"
proof -
  let ?fr = "freq_range g mn mx"
  let ?a = "min_idx g mn"
  have gr: "2 \<le> n_samples (config g)" "n_freq g = n_samples (config g) div 2"
    using init_Inr [OF assms(1)] by simp_all
  have wne: "wave \<noteq> []" using assms(2) gr(1) by auto
  obtain s where s: "compute_spectrum g wave False = Inr s"
    using compute_spectrum_raw [OF wne] by blast
  have "length s = min (nat (n_freq g)) (length wave)"
    using s by (rule raw_length) (use gr in simp)
  then have ls: "length s = nat (n_freq g)" using gr assms(2) by linarith
  have L: "length (freq_positive g) < length s"
    using freq_positive_facts(3) [OF assms(1)] ls by simp
  let ?sr = "spectrum_range g s mn mx"
  have len: "length ?sr = length ?fr" using L by (rule spectrum_range_facts(1))
  have nth: "?sr ! j = s ! (?a + j)" if "j < length ?fr" for j
    using L that by (rule spectrum_range_facts(2))
  have empty: "find_dominant_frequency g wave mn mx = Inr (0, 0)" if "?fr = []"
    using s that by (simp add: find_dominant_frequency_def)
  have some: "\<exists>p<length ?fr.
             find_dominant_frequency g wave mn mx = Inr (freq_positive g ! (?a + p), s ! (?a + p))
           \<and> (\<forall>q<length ?fr. s ! (?a + q) \<le> s ! (?a + p))
           \<and> (\<forall>q<p. s ! (?a + q) < s ! (?a + p))
           \<and> (0 < t_max (config g) \<longrightarrow>
                  freq_positive g ! (?a + p) = freq g ! (?a + p + 1))"
    if ne: "?fr \<noteq> []"
  proof -
    have "?sr \<noteq> []" using ne len by auto
    from argmax_spec [OF this] obtain p where p: "argmax ?sr = Inr p" "p < length ?sr"
      "\<forall>q<length ?sr. ?sr ! q \<le> ?sr ! p" "\<forall>q<p. ?sr ! q < ?sr ! p"
      by blast
    have pl: "p < length ?fr" using p(2) len by simp
    have res: "find_dominant_frequency g wave mn mx = Inr (?fr ! p, ?sr ! p)"
      using s ne p(1) by (simp add: find_dominant_frequency_def Let_def)
    have r1: "find_dominant_frequency g wave mn mx
        = Inr (freq_positive g ! (?a + p), s ! (?a + p))"
      unfolding res using nth_freq_range [OF pl] nth [OF pl] by simp
    have r2: "\<forall>q<length ?fr. s ! (?a + q) \<le> s ! (?a + p)"
    proof (intro allI impI)
      fix q assume q: "q < length ?fr"
      then have "?sr ! q \<le> ?sr ! p" using p(3) len by simp
      then show "s ! (?a + q) \<le> s ! (?a + p)" using nth [OF q] nth [OF pl] by simp
    qed
    have r3: "\<forall>q<p. s ! (?a + q) < s ! (?a + p)"
    proof (intro allI impI)
      fix q assume q: "q < p"
      then have ql: "q < length ?fr" using pl by simp
      from q p(4) have "?sr ! q < ?sr ! p" by blast
      then show "s ! (?a + q) < s ! (?a + p)" using nth [OF ql] nth [OF pl] by simp
    qed
    have r4: "freq_positive g ! (?a + p) = freq g ! (?a + p + 1)" if "0 < t_max (config g)"
    proof -
      have tl: "freq_positive g = tl (freq g)" using assms(1) that by (rule freq_positive_facts(4))
      have "?a + p < max_idx g mx" using pl by (simp add: length_freq_range)
      then have "?a + p < length (freq_positive g)" using max_idx_le [of g mx] by simp
      then have "?a + p < length (tl (freq g))" using tl by simp
      then have "tl (freq g) ! (?a + p) = freq g ! (?a + p + 1)" by (simp add: nth_tl)
      then show ?thesis using tl by simp
    qed
    from pl r1 r2 r3 r4 show ?thesis by blast
  qed
  from s empty some show ?thesis by blast
qed

text \<open>
  C1. \<open>find_dominant_frequency\<close> is to return the frequency at the index of the
  greatest raw magnitude in the sub-range together with that magnitude, the two belonging
  to the same frequency bin. The code takes both sub-ranges from the same index
  \<open>min_idx\<close>, but \<open>freq_positive\<close> has no entry for bin \<open>0\<close> while the spectrum has
  one: \<open>freq_range[p]\<close> is the frequency of bin \<open>min_idx + p + 1\<close> and
  \<open>spectrum_range[p]\<close> the magnitude of bin \<open>min_idx + p\<close>. On the grid with bins at
  \<open>0, 1, 2, 3\<close> Hz the wave \<open>cos (2\<pi> * 2 * j / 8)\<close> has its only content, of magnitude
  \<open>1/2\<close>, in the bin of \<open>2\<close> Hz, and the call with the default bounds returns
  \<open>(3, 1/2)\<close>.
\<close>

theorem find_dominant_frequency_off_by_one:
  "\<exists>g. init (Some \<lparr>arg_t_max = Some (7 / 8), arg_n_samples = Some 8\<rparr>) = Inr g
     \<and> int (length [1, 0, - 1, 0, 1, 0, - 1, 0 :: real]) = n_samples (config g)
     \<and> freq g = [0, 1, 2, 3]
     \<and> compute_spectrum g [1, 0, - 1, 0, 1, 0, - 1, 0] False = Inr [0, 0, 1 / 2, 0]
     \<and> find_dominant_frequency g [1, 0, - 1, 0, 1, 0, - 1, 0] 1 None = Inr (3, 1 / 2)"
proof -
  let ?g = "\<lparr>config = \<lparr>t_max = 7 / 8, n_samples = 8\<rparr>,
            t = [0, 1 / 8, 2 / 8, 3 / 8, 4 / 8, 5 / 8, 6 / 8, 7 / 8], dt = 1 / 8,
            n_freq = 4, freq = [0, 1, 2, 3], freq_positive = [1, 2, 3 :: real]\<rparr>"
  let ?w = "[1, 0, - 1, 0, 1, 0, - 1, 0] :: real list"
  have sp: "compute_spectrum ?g ?w False = Inr [0, 0, 1 / 2, 0]"
    by (rule spectrum_eight_raw) simp_all
  have "find_dominant_frequency ?g ?w 1 None = Inr (3, 1 / 2)"
    unfolding find_dominant_frequency_def sp
    by (simp add: freq_range_def spectrum_range_def min_idx_def max_idx_def
        searchsorted_def py_slice_def argmax_def)
  with sp init_eight_samples show ?thesis
    by (intro exI [of _ ?g]) simp
qed

subsection \<open>Peak detection\<close>

lemma look_ahead_run:
  "look_ahead x i s \<le> max s (length x - 1)
   \<and> (\<forall>j. s \<le> j \<and> j < look_ahead x i s \<longrightarrow> x ! j = x ! i)"
proof (induction x i s rule: look_ahead.induct)
  case (1 x i s)
  show ?case
  proof (cases "s < length x - 1 \<and> x ! s = x ! i")
    case True
    then have eq: "look_ahead x i s = look_ahead x i (s + 1)"
      by (simp add: look_ahead_step)
    from "1.IH" True have ih: "look_ahead x i (s + 1) \<le> max (s + 1) (length x - 1)"
      "\<forall>j. s + 1 \<le> j \<and> j < look_ahead x i (s + 1) \<longrightarrow> x ! j = x ! i"
      by simp_all
    have a: "look_ahead x i s \<le> max s (length x - 1)"
      using ih(1) True unfolding eq by simp
    have b: "x ! j = x ! i" if "s \<le> j" "j < look_ahead x i s" for j
    proof (cases "j = s")
      case True
      with \<open>s < length x - 1 \<and> x ! s = x ! i\<close> show ?thesis by simp
    next
      case False
      with that have "s + 1 \<le> j" "j < look_ahead x i (s + 1)" unfolding eq by simp_all
      with ih(2) show ?thesis by blast
    qed
    from a b show ?thesis by blast
  next
    case False
    then have "look_ahead x i s = s" by (rule look_ahead_stop)
    then show ?thesis by simp
  qed
qed

lemma local_maxima_1d_flat_peak:
  assumes "p \<in> set (local_maxima_1d x i)" and "0 < i"
  shows "\<exists>l r. i \<le> l \<and> flat_peak x l r \<and> p = (l + r) div 2"
  using assms
proof (induction x i rule: local_maxima_1d.induct)
  case (1 x i)
  let ?a = "look_ahead x i (i + 1)"
  have later: "\<exists>l r. i \<le> l \<and> flat_peak x l r \<and> p = (l + r) div 2"
    if "\<exists>l r. k \<le> l \<and> flat_peak x l r \<and> p = (l + r) div 2" "i \<le> k" for k
  proof -
    from that(1) obtain l r where "k \<le> l" "flat_peak x l r" "p = (l + r) div 2" by blast
    moreover from this(1) that(2) have "i \<le> l" by simp
    ultimately show ?thesis by blast
  qed
  show ?case
  proof (cases "i < length x - 1")
    case False
    with "1.prems"(1) show ?thesis by (subst (asm) local_maxima_1d.simps) simp
  next
    case inside: True
    show ?thesis
    proof (cases "x ! (i - 1) < x ! i")
      case False
      with inside "1.prems"(1) have "p \<in> set (local_maxima_1d x (i + 1))"
        by (subst (asm) local_maxima_1d.simps) simp
      with "1.IH"(3) [OF inside False] have
        "\<exists>l r. i + 1 \<le> l \<and> flat_peak x l r \<and> p = (l + r) div 2" by simp
      then show ?thesis by (rule later) simp
    next
      case rising: True
      show ?thesis
      proof (cases "x ! ?a < x ! i")
        case False
        with inside rising "1.prems"(1) have "p \<in> set (local_maxima_1d x (i + 1))"
          by (subst (asm) local_maxima_1d.simps) (simp add: Let_def)
        with "1.IH"(2) [OF inside rising refl False] have
          "\<exists>l r. i + 1 \<le> l \<and> flat_peak x l r \<and> p = (l + r) div 2" by simp
        then show ?thesis by (rule later) simp
      next
        case falling: True
        have ge: "i + 1 \<le> ?a" by (rule look_ahead_ge)
        have run: "?a \<le> max (i + 1) (length x - 1)"
          "\<forall>j. i + 1 \<le> j \<and> j < ?a \<longrightarrow> x ! j = x ! i"
          using look_ahead_run [of x i "i + 1"] by blast+
        from inside rising falling "1.prems"(1)
        have "p = (i + (?a - 1)) div 2 \<or> p \<in> set (local_maxima_1d x (?a + 1))"
          by (subst (asm) local_maxima_1d.simps) (simp add: Let_def)
        then show ?thesis
        proof
          assume p: "p = (i + (?a - 1)) div 2"
          have le: "?a \<le> length x - 1" using run(1) inside by simp
          have flat: "\<forall>j\<in>{i..?a - 1}. x ! j = x ! i"
          proof
            fix j assume "j \<in> {i..?a - 1}"
            then have "j = i \<or> (i + 1 \<le> j \<and> j < ?a)" using ge by auto
            with run(2) show "x ! j = x ! i" by blast
          qed
          have a1: "?a - 1 + 1 = ?a" using ge by simp
          have "flat_peak x i (?a - 1)"
            unfolding flat_peak_def a1
          proof (intro conjI)
            show "0 < i" by (rule "1.prems"(2))
            show "i \<le> ?a - 1" using ge by simp
            show "?a < length x" using le inside by simp
            show "\<forall>j\<in>{i..?a - 1}. x ! j = x ! i" by (rule flat)
            show "x ! (i - 1) < x ! i" by (rule rising)
            show "x ! ?a < x ! i" by (rule falling)
          qed
          with p show ?thesis by blast
        next
          assume "p \<in> set (local_maxima_1d x (?a + 1))"
          with "1.IH"(1) [OF inside rising refl falling] have
            "\<exists>l r. ?a + 1 \<le> l \<and> flat_peak x l r \<and> p = (l + r) div 2" by simp
          then show ?thesis by (rule later) (use ge in simp)
        qed
      qed
    qed
  qed
qed

lemma flat_peak_local_maximum:
  assumes "flat_peak x l r"
  shows "0 < (l + r) div 2" and "(l + r) div 2 + 1 < length x"
    and "x ! ((l + r) div 2) = x ! l"
    and "x ! ((l + r) div 2 - 1) \<le> x ! ((l + r) div 2)"
    and "x ! ((l + r) div 2 + 1) \<le> x ! ((l + r) div 2)"
proof -
  let ?p = "(l + r) div 2"
  from assms [unfolded flat_peak_def]
  have f: "0 < l" "l \<le> r" "r + 1 < length x" "\<forall>j\<in>{l..r}. x ! j = x ! l"
    "x ! (l - 1) < x ! l" "x ! (r + 1) < x ! l"
    by blast+
  have p: "l \<le> ?p" "?p \<le> r" using f(2) by linarith+
  show "0 < ?p" using p(1) f(1) by simp
  show "?p + 1 < length x" using p(2) f(3) by simp
  have "?p \<in> {l..r}" using p by simp
  with f(4) show eq: "x ! ?p = x ! l" by blast
  show "x ! (?p - 1) \<le> x ! ?p"
  proof (cases "?p = l")
    case True
    with f(5) show ?thesis by simp
  next
    case False
    with p have "?p - 1 \<in> {l..r}" by auto
    with f(4) have "x ! (?p - 1) = x ! l" by blast
    with eq show ?thesis by simp
  qed
  show "x ! (?p + 1) \<le> x ! ?p"
  proof (cases "?p = r")
    case True
    with f(6) eq show ?thesis by simp
  next
    case False
    with p have "?p + 1 \<in> {l..r}" by auto
    with f(4) have "x ! (?p + 1) = x ! l" by blast
    with eq show ?thesis by simp
  qed
qed

lemma argsort_length: "length (argsort xs) = length xs"
  by (simp add: argsort_def)

lemma zip_upt_snd: "map snd (zip xs [0..<length xs]) = [0..<length xs]"
  by (rule map_snd_zip) simp

lemma argsort_set: "set (argsort xs) = {0..<length xs}"
proof -
  let ?zs = "zip xs [0..<length xs]"
  have "set (argsort xs) = snd ` set ?zs"
    by (simp add: argsort_def py_prefix_def)
  also have "\<dots> = set (map snd ?zs)" by (simp only: set_map)
  also have "\<dots> = {0..<length xs}" unfolding zip_upt_snd by simp
  finally show ?thesis .
qed

lemma argsort_distinct: "distinct (argsort xs)"
proof -
  let ?zs = "zip xs [0..<length xs]"
  have "distinct (map snd ?zs)" unfolding zip_upt_snd by simp
  then have "distinct ?zs \<and> inj_on snd (set ?zs)" by (simp only: distinct_map)
  then have "distinct (sort_key fst ?zs) \<and> inj_on snd (set (sort_key fst ?zs))" by simp
  then have "distinct (map snd (sort_key fst ?zs))" by (simp only: distinct_map)
  then show ?thesis by (simp only: argsort_def)
qed

lemma argsort_sorted: "sorted (map ((!) xs) (argsort xs))"
proof -
  let ?zs = "zip xs [0..<length xs]"
  have el: "xs ! snd z = fst z" if "z \<in> set (sort_key fst ?zs)" for z
  proof -
    from that have "z \<in> set ?zs" by simp
    then obtain k where "k < length ?zs" "?zs ! k = z" unfolding in_set_conv_nth by blast
    then show ?thesis by auto
  qed
  have "map ((!) xs) (argsort xs) = map (\<lambda>z. xs ! snd z) (sort_key fst ?zs)"
    by (simp add: argsort_def o_def)
  also have "\<dots> = map fst (sort_key fst ?zs)"
    by (rule map_cong) (simp_all add: el)
  finally show ?thesis by simp
qed

lemma descending_distinct:
  assumes "sorted_wrt (\<ge>) (xs :: real list)" and "distinct xs"
  shows "sorted_wrt (>) xs"
  unfolding sorted_wrt_iff_nth_less
proof (intro allI impI)
  fix i j assume ij: "i < j" "j < length xs"
  with assms(1) have "xs ! j \<le> xs ! i" by (simp add: sorted_wrt_iff_nth_less)
  moreover have "xs ! i \<noteq> xs ! j"
    using assms(2) ij by (simp add: nth_eq_iff_index_eq)
  ultimately show "xs ! j < xs ! i" by simp
qed

lemma find_multiple_peaks_result:
  assumes "compute_spectrum self wave True = Inr spectrum"
  shows "\<exists>idx. find_multiple_peaks self wave n_peaks mn mx height
        = Inr (map (\<lambda>k. freq_range self mn mx
                        ! (find_peaks (spectrum_range self spectrum mn mx) height ! k)) idx,
               map (\<lambda>k. spectrum_range self spectrum mn mx
                        ! (find_peaks (spectrum_range self spectrum mn mx) height ! k)) idx)
     \<and> set idx \<subseteq> {0..<length (find_peaks (spectrum_range self spectrum mn mx) height)}
     \<and> distinct idx \<and> (0 \<le> n_peaks \<longrightarrow> int (length idx) \<le> n_peaks)
     \<and> sorted_wrt (\<ge>) (map (\<lambda>k. spectrum_range self spectrum mn mx
                        ! (find_peaks (spectrum_range self spectrum mn mx) height ! k)) idx)
     \<and> (freq_range self mn mx = [] \<or> find_peaks (spectrum_range self spectrum mn mx) height = []
          \<longrightarrow> idx = [])"
proof -
  let ?fr = "freq_range self mn mx"
  let ?sr = "spectrum_range self spectrum mn mx"
  let ?peaks = "find_peaks ?sr height"
  let ?vals = "map (\<lambda>p. ?sr ! p) ?peaks"
  let ?idx = "py_prefix n_peaks (rev (argsort ?vals))"
  obtain m where m: "?idx = take m (rev (argsort ?vals))"
    by (cases "0 \<le> n_peaks") (simp_all add: py_prefix_def)
  show ?thesis
  proof (cases "?fr = []")
    case True
    then have "find_multiple_peaks self wave n_peaks mn mx height = Inr ([], [])"
      using assms by (simp add: find_multiple_peaks_def)
    then show ?thesis by (intro exI [of _ "[]"]) simp
  next
    case False
    then have res: "find_multiple_peaks self wave n_peaks mn mx height
        = Inr (map (\<lambda>k. ?fr ! (?peaks ! k)) ?idx, map (\<lambda>k. ?sr ! (?peaks ! k)) ?idx)"
      using assms by (simp add: find_multiple_peaks_def Let_def)
    have "set ?idx \<subseteq> set (rev (argsort ?vals))" unfolding m by (rule set_take_subset)
    then have sub: "set ?idx \<subseteq> {0..<length ?peaks}" by (simp add: argsort_set)
    have dist: "distinct ?idx" unfolding m by (simp add: argsort_distinct)
    have len: "0 \<le> n_peaks \<longrightarrow> int (length ?idx) \<le> n_peaks"
    proof
      assume k: "0 \<le> n_peaks"
      then have "length ?idx \<le> nat n_peaks" by (simp add: py_prefix_def)
      with k show "int (length ?idx) \<le> n_peaks" by linarith
    qed
    have "map (\<lambda>k. ?sr ! (?peaks ! k)) ?idx = map ((!) ?vals) ?idx"
    proof (rule map_cong [OF refl])
      fix k assume "k \<in> set ?idx"
      with sub have "k < length ?peaks" by auto
      then show "?sr ! (?peaks ! k) = ?vals ! k" by simp
    qed
    also have "\<dots> = take m (rev (map ((!) ?vals) (argsort ?vals)))"
      by (simp only: m take_map rev_map)
    finally have mags: "map (\<lambda>k. ?sr ! (?peaks ! k)) ?idx
        = take m (rev (map ((!) ?vals) (argsort ?vals)))" .
    have "sorted_wrt (\<le>) (map ((!) ?vals) (argsort ?vals))" by (rule argsort_sorted)
    then have "sorted_wrt (\<ge>) (rev (map ((!) ?vals) (argsort ?vals)))"
      by (simp only: sorted_wrt_rev)
    then have srt: "sorted_wrt (\<ge>) (map (\<lambda>k. ?sr ! (?peaks ! k)) ?idx)"
      unfolding mags by (rule sorted_wrt_take)
    have emp: "?idx = []" if "?peaks = []"
    proof -
      have "length (argsort ?vals) = 0" using that by (simp add: argsort_length)
      then have "argsort ?vals = []" by (simp only: length_0_conv)
      then show ?thesis unfolding m by simp
    qed
    show ?thesis
      using res sub dist len srt emp False by (intro exI [of _ ?idx]) blast
  qed
qed

lemma detected_peak_flat:
  assumes "p \<in> set (find_peaks x height)"
  shows "height \<le> x ! p" and "\<exists>l r. flat_peak x l r \<and> p = (l + r) div 2"
proof -
  from assms have m: "p \<in> set (local_maxima_1d x 1)" and h: "height \<le> x ! p"
    by (simp_all add: find_peaks_def)
  show "height \<le> x ! p" by (rule h)
  from local_maxima_1d_flat_peak [OF m] show "\<exists>l r. flat_peak x l r \<and> p = (l + r) div 2"
    by auto
qed

lemma find_multiple_peaks_entries:
  assumes "init cfg = Inr g" and "int (length wave) = n_samples (config g)"
  shows "\<exists>spectrum idx. compute_spectrum g wave True = Inr spectrum
     \<and> length (freq_positive g) < length spectrum
     \<and> length (spectrum_range g spectrum mn mx) = length (freq_range g mn mx)
     \<and> find_multiple_peaks g wave n_peaks mn mx height
        = Inr (map (\<lambda>k. freq_range g mn mx
                        ! (find_peaks (spectrum_range g spectrum mn mx) height ! k)) idx,
               map (\<lambda>k. spectrum_range g spectrum mn mx
                        ! (find_peaks (spectrum_range g spectrum mn mx) height ! k)) idx)
     \<and> set idx \<subseteq> {0..<length (find_peaks (spectrum_range g spectrum mn mx) height)}
     \<and> distinct idx \<and> (0 \<le> n_peaks \<longrightarrow> int (length idx) \<le> n_peaks)
     \<and> sorted_wrt (\<ge>) (map (\<lambda>k. spectrum_range g spectrum mn mx
                        ! (find_peaks (spectrum_range g spectrum mn mx) height ! k)) idx)
     \<and> (freq_range g mn mx = [] \<or> find_peaks (spectrum_range g spectrum mn mx) height = []
          \<longrightarrow> idx = [])"
proof -
  obtain s where s: "compute_spectrum g wave True = Inr s"
    "length s = nat (n_samples (config g) div 2)"
    using normalised_spectrum_facts [OF assms] by blast
  have nf: "n_freq g = n_samples (config g) div 2" using init_Inr [OF assms(1)] by simp
  have L: "length (freq_positive g) < length s"
    using freq_positive_facts(3) [OF assms(1)] nf s(2) by simp
  have len: "length (spectrum_range g s mn mx) = length (freq_range g mn mx)"
    using L by (rule spectrum_range_facts(1))
  from find_multiple_peaks_result [OF s(1), of n_peaks mn mx height] s(1) L len
  show ?thesis by blast
qed

subsection \<open>Several peaks\<close>

text \<open>What \<open>find_multiple_peaks\<close> returns on a constructed grid, for a wave of length
  \<open>n_samples\<close> and a count \<open>n_peaks \<ge> 0\<close>: two sequences of the same length, at most
  \<open>n_peaks\<close>. Entry \<open>k\<close> of both comes from one index \<open>p\<close> that the peak detection
  reported on \<open>spectrum_range\<close>, an interior index whose magnitude is at least \<open>height\<close>
  and not below that of either neighbour. The magnitude is that of bin \<open>min_idx + p\<close>;
  the frequency is \<open>freq_positive[min_idx + p]\<close>, which for \<open>t_max > 0\<close> is that of bin
  \<open>min_idx + p + 1\<close>. The magnitudes are in descending order, strictly when the
  magnitudes of the detected peaks are pairwise distinct, and both sequences are empty when
  the sub-range is empty and when no local maximum reaches \<open>height\<close>.\<close>

lemma find_multiple_peaks_on_grid:
  assumes "init cfg = Inr g" and "int (length wave) = n_samples (config g)"
    and "0 \<le> n_peaks"
  shows "\<exists>spectrum freqs mags.
       compute_spectrum g wave True = Inr spectrum
     \<and> find_multiple_peaks g wave n_peaks mn mx height = Inr (freqs, mags)
     \<and> length freqs = length mags \<and> int (length mags) \<le> n_peaks
     \<and> length (spectrum_range g spectrum mn mx) = length (freq_range g mn mx)
     \<and> (\<forall>k<length mags.
           \<exists>p\<in>set (find_peaks (spectrum_range g spectrum mn mx) height).
              freqs ! k = freq_range g mn mx ! p
            \<and> mags ! k = spectrum_range g spectrum mn mx ! p
            \<and> freqs ! k = freq_positive g ! (min_idx g mn + p)
            \<and> mags ! k = spectrum ! (min_idx g mn + p)
            \<and> (0 < t_max (config g) \<longrightarrow>
                  freqs ! k = freq g ! (min_idx g mn + p + 1))
            \<and> 0 < p \<and> p + 1 < length (spectrum_range g spectrum mn mx)
            \<and> spectrum_range g spectrum mn mx ! (p - 1) \<le> spectrum_range g spectrum mn mx ! p
            \<and> spectrum_range g spectrum mn mx ! (p + 1) \<le> spectrum_range g spectrum mn mx ! p
            \<and> height \<le> spectrum_range g spectrum mn mx ! p)
     \<and> sorted_wrt (\<ge>) mags
     \<and> (distinct (map ((!) (spectrum_range g spectrum mn mx))
                     (find_peaks (spectrum_range g spectrum mn mx) height))
          \<longrightarrow> sorted_wrt (>) mags)
     \<and> (freq_range g mn mx = [] \<longrightarrow> freqs = [] \<and> mags = [])
     \<and> ((\<forall>p\<in>set (local_maxima_1d (spectrum_range g spectrum mn mx) 1).
            spectrum_range g spectrum mn mx ! p < height)
          \<longrightarrow> freqs = [] \<and> mags = [])"
proof -
  from find_multiple_peaks_entries [OF assms(1,2), of mn mx n_peaks height]
  obtain s idx where s: "compute_spectrum g wave True = Inr s"
    and L: "length (freq_positive g) < length s"
    and len: "length (spectrum_range g s mn mx) = length (freq_range g mn mx)"
    and res: "find_multiple_peaks g wave n_peaks mn mx height
        = Inr (map (\<lambda>k. freq_range g mn mx
                        ! (find_peaks (spectrum_range g s mn mx) height ! k)) idx,
               map (\<lambda>k. spectrum_range g s mn mx
                        ! (find_peaks (spectrum_range g s mn mx) height ! k)) idx)"
    and sub: "set idx \<subseteq> {0..<length (find_peaks (spectrum_range g s mn mx) height)}"
    and dist: "distinct idx" and n: "0 \<le> n_peaks \<longrightarrow> int (length idx) \<le> n_peaks"
    and srt: "sorted_wrt (\<ge>) (map (\<lambda>k. spectrum_range g s mn mx
                        ! (find_peaks (spectrum_range g s mn mx) height ! k)) idx)"
    and emp: "freq_range g mn mx = [] \<or> find_peaks (spectrum_range g s mn mx) height = []
          \<longrightarrow> idx = []"
    by blast
  let ?fr = "freq_range g mn mx"
  let ?sr = "spectrum_range g s mn mx"
  let ?peaks = "find_peaks ?sr height"
  let ?freqs = "map (\<lambda>k. ?fr ! (?peaks ! k)) idx"
  let ?mags = "map (\<lambda>k. ?sr ! (?peaks ! k)) idx"
  have l1: "length ?freqs = length ?mags" by simp
  have l2: "int (length ?mags) \<le> n_peaks" using n assms(3) by simp
  have each: "\<forall>k<length ?mags. \<exists>p\<in>set ?peaks.
        ?freqs ! k = ?fr ! p \<and> ?mags ! k = ?sr ! p
      \<and> ?freqs ! k = freq_positive g ! (min_idx g mn + p)
      \<and> ?mags ! k = s ! (min_idx g mn + p)
      \<and> (0 < t_max (config g) \<longrightarrow> ?freqs ! k = freq g ! (min_idx g mn + p + 1))
      \<and> 0 < p \<and> p + 1 < length ?sr \<and> ?sr ! (p - 1) \<le> ?sr ! p \<and> ?sr ! (p + 1) \<le> ?sr ! p
      \<and> height \<le> ?sr ! p"
  proof (intro allI impI)
    fix k assume "k < length ?mags"
    then have k: "k < length idx" by simp
    then have "idx ! k \<in> set idx" by simp
    with sub have i: "idx ! k < length ?peaks" by auto
    let ?p = "?peaks ! (idx ! k)"
    have mem: "?p \<in> set ?peaks" using i by simp
    from detected_peak_flat(2) [OF mem] obtain l r where
      fp: "flat_peak ?sr l r" and p: "?p = (l + r) div 2" by blast
    have "0 < ?p" "?p + 1 < length ?sr" "?sr ! (?p - 1) \<le> ?sr ! ?p"
      "?sr ! (?p + 1) \<le> ?sr ! ?p"
      unfolding p using flat_peak_local_maximum [OF fp] by simp_all
    moreover have "height \<le> ?sr ! ?p" using mem by (rule detected_peak_flat(1))
    moreover have fm: "?freqs ! k = ?fr ! ?p" "?mags ! k = ?sr ! ?p" using k by simp_all
    moreover have pl: "?p < length ?fr"
      using flat_peak_local_maximum(2) [OF fp] len unfolding p by simp
    have al: "?fr ! ?p = freq_positive g ! (min_idx g mn + ?p)"
      using pl by (rule nth_freq_range)
    have am: "?sr ! ?p = s ! (min_idx g mn + ?p)"
      using L pl by (rule spectrum_range_facts(2))
    have af: "freq_positive g ! (min_idx g mn + ?p) = freq g ! (min_idx g mn + ?p + 1)"
      if "0 < t_max (config g)"
    proof -
      have tl: "freq_positive g = tl (freq g)"
        using assms(1) that by (rule freq_positive_facts(4))
      have "min_idx g mn + ?p < max_idx g mx" using pl by (simp add: length_freq_range)
      then have "min_idx g mn + ?p < length (freq_positive g)"
        using max_idx_le [of g mx] by simp
      then have "min_idx g mn + ?p < length (tl (freq g))" using tl by simp
      then have "tl (freq g) ! (min_idx g mn + ?p) = freq g ! (min_idx g mn + ?p + 1)"
        by (simp add: nth_tl)
      then show ?thesis using tl by simp
    qed
    have "?freqs ! k = freq_positive g ! (min_idx g mn + ?p)" using fm(1) al by simp
    moreover have "?mags ! k = s ! (min_idx g mn + ?p)" using fm(2) am by simp
    moreover have "0 < t_max (config g) \<longrightarrow> ?freqs ! k = freq g ! (min_idx g mn + ?p + 1)"
      using fm(1) al af by simp
    ultimately show "\<exists>p\<in>set ?peaks.
        ?freqs ! k = ?fr ! p \<and> ?mags ! k = ?sr ! p
      \<and> ?freqs ! k = freq_positive g ! (min_idx g mn + p)
      \<and> ?mags ! k = s ! (min_idx g mn + p)
      \<and> (0 < t_max (config g) \<longrightarrow> ?freqs ! k = freq g ! (min_idx g mn + p + 1))
      \<and> 0 < p \<and> p + 1 < length ?sr \<and> ?sr ! (p - 1) \<le> ?sr ! p \<and> ?sr ! (p + 1) \<le> ?sr ! p
      \<and> height \<le> ?sr ! p"
      using mem by blast
  qed
  have strict: "sorted_wrt (>) ?mags" if d: "distinct (map ((!) ?sr) ?peaks)"
  proof -
    let ?vals = "map ((!) ?sr) ?peaks"
    have eq: "?mags = map ((!) ?vals) idx"
    proof (rule map_cong [OF refl])
      fix k assume "k \<in> set idx"
      with sub have "k < length ?peaks" by auto
      then show "?sr ! (?peaks ! k) = ?vals ! k" by simp
    qed
    have "inj_on ((!) ?vals) (set idx)"
    proof (rule inj_onI)
      fix a b assume ab: "a \<in> set idx" "b \<in> set idx" "?vals ! a = ?vals ! b"
      with sub have lt: "a < length ?vals" "b < length ?vals" by auto
      from nth_eq_iff_index_eq [OF d lt] ab(3) show "a = b" by blast
    qed
    with dist have "distinct (map ((!) ?vals) idx)" by (simp add: distinct_map)
    then have "distinct ?mags" by (simp only: eq)
    with srt show ?thesis by (rule descending_distinct)
  qed
  have e1: "?freqs = [] \<and> ?mags = []" if "?fr = []"
    using emp that by simp
  have e2: "?freqs = [] \<and> ?mags = []"
    if "\<forall>p\<in>set (local_maxima_1d ?sr 1). ?sr ! p < height"
  proof -
    from that have "?peaks = []"
      by (auto simp: find_peaks_def filter_empty_conv not_le)
    with emp show ?thesis by simp
  qed
  show ?thesis
    using s res l1 l2 len each srt strict e1 e2 by blast
qed

text \<open>A grid of twenty samples with bins at \<open>0, 1, \<dots>, 9\<close> Hz, and two waves on it:
  one whose normalized spectrum has flat tops over three bins, one with separate peaks of
  different height.\<close>

lemma init_twenty_samples:
  "\<exists>g. init (Some \<lparr>arg_t_max = Some (19 / 20), arg_n_samples = Some 20\<rparr>) = Inr g
     \<and> n_samples (config g) = 20 \<and> n_freq g = 10
     \<and> freq g = [0, 1, 2, 3, 4, 5, 6, 7, 8, 9]
     \<and> freq_positive g = [1, 2, 3, 4, 5, 6, 7, 8, 9]"
proof -
  let ?c = "\<lparr>t_max = 19 / 20, n_samples = 20\<rparr>"
  have c: "merged_config (Some \<lparr>arg_t_max = Some (19 / 20), arg_n_samples = Some 20\<rparr>) = ?c"
    by (simp add: merged_config_def config_update_def)
  have "2 \<le> n_samples ?c" by simp
  from init_params_ge2 [OF this] obtain g where g: "init_time_freq_params ?c = Inr g"
    "config g = ?c" "dt g = t_max ?c / real_of_int (n_samples ?c - 1)"
    "n_freq g = n_samples ?c div 2"
    "freq g = map (\<lambda>k. real k * (1 / (real_of_int (n_samples ?c) * dt g)))
                [0..<nat (n_samples ?c div 2)]"
    "freq_positive g = filter (\<lambda>f. 0 < f) (freq g)"
    by blast
  have d: "dt g = 1 / 20" using g(3) by simp
  have f: "freq g = [0, 1, 2, 3, 4, 5, 6, 7, 8, 9]"
    unfolding g(5) d by (simp add: upt_conv_Cons)
  have fp: "freq_positive g = [1, 2, 3, 4, 5, 6, 7, 8, 9]"
    unfolding g(6) f by simp
  show ?thesis
    using g(1,2,4) f fp by (intro exI [of _ g]) (simp add: init_def c)
qed

lemma dft_bins_twenty_flat:
  "map (dft_bin [1, 0, 0, 0, 0, 1, 0, 0, 0, 0, - 2, 0, 0, 0, 0, 1, 0, 0, 0, 0]) [0..<10]
     = [1, 3, - 3, 3, 1, 3, - 3, 3, 1, 3]"
  by (simp add: dft_bin_sum_list upt_conv_Cons cis_eval)

lemma dft_bins_twenty_two_peaks:
  "map (dft_bin [2, 0, 0, 0, 0, 1, 0, 0, 0, 0, 2, 0, 0, 0, 0, 1, 0, 0, 0, 0]) [0..<10]
     = [6, 0, 2, 0, 6, 0, 2, 0, 6, 0]"
  by (simp add: dft_bin_sum_list upt_conv_Cons cis_eval)

lemma spectrum_twenty_flat:
  assumes "n_freq g = 10" and "n_samples (config g) = 20"
  shows "compute_spectrum g [1, 0, 0, 0, 0, 1, 0, 0, 0, 0, - 2, 0, 0, 0, 0, 1, 0, 0, 0, 0] True
     = Inr [1 / 3, 1, 1, 1, 1 / 3, 1, 1, 1, 1 / 3, 1]"
proof -
  let ?w = "[1, 0, 0, 0, 0, 1, 0, 0, 0, 0, - 2, 0, 0, 0, 0, 1, 0, 0, 0, 0] :: real list"
  have "compute_spectrum g ?w False
     = Inr (map (\<lambda>z. cmod z / 20) (map (dft_bin ?w) [0..<10]))"
    using assms by (simp add: compute_spectrum_raw py_prefix_map py_prefix_upt del: upt_Suc)
  then have r: "compute_spectrum g ?w False
     = Inr [1 / 20, 3 / 20, 3 / 20, 3 / 20, 1 / 20, 3 / 20, 3 / 20, 3 / 20, 1 / 20, 3 / 20]"
    unfolding dft_bins_twenty_flat by simp
  show ?thesis
    unfolding compute_spectrum_normalised [OF r] by (simp add: np_max_def)
qed

lemma spectrum_twenty_two_peaks:
  assumes "n_freq g = 10" and "n_samples (config g) = 20"
  shows "compute_spectrum g [2, 0, 0, 0, 0, 1, 0, 0, 0, 0, 2, 0, 0, 0, 0, 1, 0, 0, 0, 0] True
     = Inr [1, 0, 1 / 3, 0, 1, 0, 1 / 3, 0, 1, 0]"
proof -
  let ?w = "[2, 0, 0, 0, 0, 1, 0, 0, 0, 0, 2, 0, 0, 0, 0, 1, 0, 0, 0, 0] :: real list"
  have "compute_spectrum g ?w False
     = Inr (map (\<lambda>z. cmod z / 20) (map (dft_bin ?w) [0..<10]))"
    using assms by (simp add: compute_spectrum_raw py_prefix_map py_prefix_upt del: upt_Suc)
  then have r: "compute_spectrum g ?w False
     = Inr [6 / 20, 0, 2 / 20, 0, 6 / 20, 0, 2 / 20, 0, 6 / 20, 0]"
    unfolding dft_bins_twenty_two_peaks by simp
  show ?thesis
    unfolding compute_spectrum_normalised [OF r] by (simp add: np_max_def)
qed

lemma local_maxima_flat: "local_maxima_1d [1, 1, 1, 1 / 3, 1, 1, 1, 1 / 3] 1 = [5]"
  by (simp add: local_maxima_1d.simps look_ahead.simps Let_def)

lemma local_maxima_two_peaks: "local_maxima_1d [0, 1 / 3, 0, 1, 0, 1 / 3] 1 = [1, 3]"
  by (simp add: local_maxima_1d.simps look_ahead.simps Let_def)

text \<open>
  C4. \<open>find_multiple_peaks\<close> is to return, as two parallel sequences, the frequencies
  and the magnitudes of local-maximum peaks of the normalized spectrum within the
  restricted sub-range. The code takes \<open>freq_range\<close> and \<open>spectrum_range\<close> from the same
  index \<open>min_idx\<close>, as \<open>find_dominant_frequency\<close> does, so each returned frequency is that
  of the bin above the bin of its magnitude. On the grid with bins at \<open>0, 1, \<dots>, 9\<close> Hz
  the wave below has the normalized spectrum \<open>[1, 0, 1/3, 0, 1, 0, 1/3, 0, 1, 0]\<close>: between
  \<open>1\<close> and \<open>7.5\<close> Hz its peaks are at \<open>4\<close> Hz, of magnitude \<open>1\<close>, and at \<open>2\<close> Hz, of
  magnitude \<open>1/3\<close>, and it is \<open>0\<close> at \<open>5\<close> and at \<open>3\<close> Hz. The call with
  \<open>min_freq = 1\<close>, \<open>max_freq = 7.5\<close> returns the frequencies \<open>[5, 3]\<close> with the magnitudes
  \<open>[1, 1/3]\<close>.
\<close>

theorem find_multiple_peaks_off_by_one:
  "\<exists>g. init (Some \<lparr>arg_t_max = Some (19 / 20), arg_n_samples = Some 20\<rparr>) = Inr g
     \<and> int (length [2, 0, 0, 0, 0, 1, 0, 0, 0, 0, 2, 0, 0, 0, 0, 1, 0, 0, 0, 0 :: real])
         = n_samples (config g)
     \<and> freq g = [0, 1, 2, 3, 4, 5, 6, 7, 8, 9]
     \<and> compute_spectrum g [2, 0, 0, 0, 0, 1, 0, 0, 0, 0, 2, 0, 0, 0, 0, 1, 0, 0, 0, 0] True
         = Inr [1, 0, 1 / 3, 0, 1, 0, 1 / 3, 0, 1, 0]
     \<and> freq_range g 1 (Some (15 / 2)) = [2, 3, 4, 5, 6, 7]
     \<and> spectrum_range g [1, 0, 1 / 3, 0, 1, 0, 1 / 3, 0, 1, 0] 1 (Some (15 / 2))
         = [0, 1 / 3, 0, 1, 0, 1 / 3]
     \<and> find_multiple_peaks g [2, 0, 0, 0, 0, 1, 0, 0, 0, 0, 2, 0, 0, 0, 0, 1, 0, 0, 0, 0]
           3 1 (Some (15 / 2)) (1 / 10) = Inr ([5, 3], [1, 1 / 3])"
proof -
  let ?w = "[2, 0, 0, 0, 0, 1, 0, 0, 0, 0, 2, 0, 0, 0, 0, 1, 0, 0, 0, 0] :: real list"
  let ?s = "[1, 0, 1 / 3, 0, 1, 0, 1 / 3, 0, 1, 0] :: real list"
  from init_twenty_samples obtain g
    where g: "init (Some \<lparr>arg_t_max = Some (19 / 20), arg_n_samples = Some 20\<rparr>) = Inr g"
      "n_samples (config g) = 20" "n_freq g = 10"
      "freq g = [0, 1, 2, 3, 4, 5, 6, 7, 8, 9]"
      "freq_positive g = [1, 2, 3, 4, 5, 6, 7, 8, 9]"
    by blast
  have h: "int (length ?w) = n_samples (config g)" using g(2) by simp
  have sp: "compute_spectrum g ?w True = Inr ?s"
    using g(3,2) by (rule spectrum_twenty_two_peaks)
  have fr: "freq_range g 1 (Some (15 / 2)) = [2, 3, 4, 5, 6, 7]"
    by (simp add: freq_range_def min_idx_def max_idx_def searchsorted_def py_slice_def g(5))
  have sr: "spectrum_range g ?s 1 (Some (15 / 2)) = [0, 1 / 3, 0, 1, 0, 1 / 3]"
    unfolding spectrum_range_def fr by (simp add: min_idx_def searchsorted_def py_slice_def g(5))
  have pk: "find_peaks [0, 1 / 3, 0, 1, 0, 1 / 3] (1 / 10) = [1, 3]"
    unfolding find_peaks_def local_maxima_two_peaks by simp
  have ev: "find_multiple_peaks g ?w 3 1 (Some (15 / 2)) (1 / 10) = Inr ([5, 3], [1, 1 / 3])"
    unfolding find_multiple_peaks_def sp sum.case Let_def fr sr pk
    by (simp add: argsort_def py_prefix_def)
  from g(1) h g(4) sp fr sr ev show ?thesis by blast
qed

text \<open>
  C10, as the code has it. The first and the last index of the restricted magnitude
  sub-range are never reported as peaks. Every returned peak is the midpoint, rounded
  down, of a run of equal magnitudes that lies strictly inside the sub-range and has a
  strictly lower magnitude on either side of the run. When the run is a single sample the
  peak is strictly greater than both its immediate neighbours; inside a longer run its
  neighbours are equal to it.
\<close>

theorem find_multiple_peaks_interior:
  assumes "init cfg = Inr g" and "int (length wave) = n_samples (config g)"
  shows "\<exists>spectrum freqs mags.
       compute_spectrum g wave True = Inr spectrum
     \<and> find_multiple_peaks g wave n_peaks mn mx height = Inr (freqs, mags)
     \<and> length freqs = length mags
     \<and> (\<forall>k<length mags. \<exists>l r.
            flat_peak (spectrum_range g spectrum mn mx) l r
          \<and> freqs ! k = freq_range g mn mx ! ((l + r) div 2)
          \<and> mags ! k = spectrum_range g spectrum mn mx ! ((l + r) div 2)
          \<and> 0 < (l + r) div 2
          \<and> (l + r) div 2 + 1 < length (spectrum_range g spectrum mn mx)
          \<and> (l = r \<longrightarrow>
                spectrum_range g spectrum mn mx ! ((l + r) div 2 - 1)
                  < spectrum_range g spectrum mn mx ! ((l + r) div 2)
              \<and> spectrum_range g spectrum mn mx ! ((l + r) div 2 + 1)
                  < spectrum_range g spectrum mn mx ! ((l + r) div 2)))"
proof -
  from find_multiple_peaks_entries [OF assms, of mn mx n_peaks height]
  obtain s idx where s: "compute_spectrum g wave True = Inr s"
    and res: "find_multiple_peaks g wave n_peaks mn mx height
        = Inr (map (\<lambda>k. freq_range g mn mx
                        ! (find_peaks (spectrum_range g s mn mx) height ! k)) idx,
               map (\<lambda>k. spectrum_range g s mn mx
                        ! (find_peaks (spectrum_range g s mn mx) height ! k)) idx)"
    and sub: "set idx \<subseteq> {0..<length (find_peaks (spectrum_range g s mn mx) height)}"
    by blast
  let ?fr = "freq_range g mn mx"
  let ?sr = "spectrum_range g s mn mx"
  let ?peaks = "find_peaks ?sr height"
  let ?freqs = "map (\<lambda>k. ?fr ! (?peaks ! k)) idx"
  let ?mags = "map (\<lambda>k. ?sr ! (?peaks ! k)) idx"
  have l1: "length ?freqs = length ?mags" by simp
  have each: "\<forall>k<length ?mags. \<exists>l r. flat_peak ?sr l r
          \<and> ?freqs ! k = ?fr ! ((l + r) div 2) \<and> ?mags ! k = ?sr ! ((l + r) div 2)
          \<and> 0 < (l + r) div 2 \<and> (l + r) div 2 + 1 < length ?sr
          \<and> (l = r \<longrightarrow> ?sr ! ((l + r) div 2 - 1) < ?sr ! ((l + r) div 2)
                      \<and> ?sr ! ((l + r) div 2 + 1) < ?sr ! ((l + r) div 2))"
  proof (intro allI impI)
    fix k assume "k < length ?mags"
    then have k: "k < length idx" by simp
    then have "idx ! k \<in> set idx" by simp
    with sub have i: "idx ! k < length ?peaks" by auto
    let ?p = "?peaks ! (idx ! k)"
    have mem: "?p \<in> set ?peaks" using i by simp
    from detected_peak_flat(2) [OF mem] obtain l r where
      fp: "flat_peak ?sr l r" and p: "?p = (l + r) div 2" by blast
    have a: "?freqs ! k = ?fr ! ((l + r) div 2)" "?mags ! k = ?sr ! ((l + r) div 2)"
      using k p by simp_all
    have b: "0 < (l + r) div 2" "(l + r) div 2 + 1 < length ?sr"
      using flat_peak_local_maximum(1,2) [OF fp] .
    have c: "?sr ! ((l + r) div 2 - 1) < ?sr ! ((l + r) div 2)
           \<and> ?sr ! ((l + r) div 2 + 1) < ?sr ! ((l + r) div 2)" if "l = r"
    proof -
      have m: "(l + r) div 2 = l" using that by simp
      from fp [unfolded flat_peak_def] that show ?thesis unfolding m by blast
    qed
    from fp a b c show "\<exists>l r. flat_peak ?sr l r
          \<and> ?freqs ! k = ?fr ! ((l + r) div 2) \<and> ?mags ! k = ?sr ! ((l + r) div 2)
          \<and> 0 < (l + r) div 2 \<and> (l + r) div 2 + 1 < length ?sr
          \<and> (l = r \<longrightarrow> ?sr ! ((l + r) div 2 - 1) < ?sr ! ((l + r) div 2)
                      \<and> ?sr ! ((l + r) div 2 + 1) < ?sr ! ((l + r) div 2))"
      by blast
  qed
  show ?thesis using s res l1 each by blast
qed

theorem find_multiple_peaks_interior_witness:
  "\<exists>g. init (Some \<lparr>arg_t_max = Some (19 / 20), arg_n_samples = Some 20\<rparr>) = Inr g
     \<and> int (length [2, 0, 0, 0, 0, 1, 0, 0, 0, 0, 2, 0, 0, 0, 0, 1, 0, 0, 0, 0 :: real])
         = n_samples (config g)
     \<and> spectrum_range g [1, 0, 1 / 3, 0, 1, 0, 1 / 3, 0, 1, 0] 1 (Some 8)
         = [0, 1 / 3, 0, 1, 0, 1 / 3]
     \<and> find_multiple_peaks g [2, 0, 0, 0, 0, 1, 0, 0, 0, 0, 2, 0, 0, 0, 0, 1, 0, 0, 0, 0]
           3 1 (Some 8) (1 / 10) = Inr ([5, 3], [1, 1 / 3])
     \<and> flat_peak [0, 1 / 3, 0, 1, 0, 1 / 3] 3 3
     \<and> (\<exists>l r. flat_peak [0, 1 / 3, 0, 1, 0, 1 / 3] l r
            \<and> (1 :: real) = [0, 1 / 3, 0, 1, 0, 1 / 3] ! ((l + r) div 2))"
proof -
  let ?w = "[2, 0, 0, 0, 0, 1, 0, 0, 0, 0, 2, 0, 0, 0, 0, 1, 0, 0, 0, 0] :: real list"
  let ?s = "[1, 0, 1 / 3, 0, 1, 0, 1 / 3, 0, 1, 0] :: real list"
  from init_twenty_samples obtain g
    where g: "init (Some \<lparr>arg_t_max = Some (19 / 20), arg_n_samples = Some 20\<rparr>) = Inr g"
      "n_samples (config g) = 20" "n_freq g = 10"
      "freq_positive g = [1, 2, 3, 4, 5, 6, 7, 8, 9]"
    by blast
  have h: "int (length ?w) = n_samples (config g)" using g(2) by simp
  have sp: "compute_spectrum g ?w True = Inr ?s"
    using g(3,2) by (rule spectrum_twenty_two_peaks)
  have fr: "freq_range g 1 (Some 8) = [2, 3, 4, 5, 6, 7]"
    by (simp add: freq_range_def min_idx_def max_idx_def searchsorted_def py_slice_def g(4))
  have sr: "spectrum_range g ?s 1 (Some 8) = [0, 1 / 3, 0, 1, 0, 1 / 3]"
    unfolding spectrum_range_def fr by (simp add: min_idx_def searchsorted_def py_slice_def g(4))
  have pk: "find_peaks [0, 1 / 3, 0, 1, 0, 1 / 3] (1 / 10) = [1, 3]"
    unfolding find_peaks_def local_maxima_two_peaks by simp
  have ev: "find_multiple_peaks g ?w 3 1 (Some 8) (1 / 10) = Inr ([5, 3], [1, 1 / 3])"
    unfolding find_multiple_peaks_def sp sum.case Let_def fr sr pk
    by (simp add: argsort_def py_prefix_def)
  from find_multiple_peaks_interior [OF g(1) h, of 3 1 "Some 8" "1 / 10"]
  obtain s' fq mg where a: "compute_spectrum g ?w True = Inr s'"
      "find_multiple_peaks g ?w 3 1 (Some 8) (1 / 10) = Inr (fq, mg)"
    and each: "\<forall>k<length mg. \<exists>l r.
            flat_peak (spectrum_range g s' 1 (Some 8)) l r
          \<and> mg ! k = spectrum_range g s' 1 (Some 8) ! ((l + r) div 2)"
    by blast
  have s': "s' = ?s" using a(1) sp by simp
  have mg: "mg = [1, 1 / 3]" using a(2) ev by simp
  have "0 < length mg" unfolding mg by simp
  with each have "\<exists>l r. flat_peak (spectrum_range g s' 1 (Some 8)) l r
          \<and> mg ! 0 = spectrum_range g s' 1 (Some 8) ! ((l + r) div 2)"
    by blast
  then have ex: "\<exists>l r. flat_peak [0, 1 / 3, 0, 1, 0, 1 / 3] l r
            \<and> (1 :: real) = [0, 1 / 3, 0, 1, 0, 1 / 3] ! ((l + r) div 2)"
    unfolding s' sr mg by simp
  have single: "flat_peak [0, 1 / 3, 0, 1, 0, 1 / 3] 3 3"
    by (simp add: flat_peak_def)
  from g(1) h sr ev single ex show ?thesis by blast
qed

text \<open>The claim as stated, with every returned peak strictly greater than both immediate
  neighbours, fails on a flat top: the restricted sub-range below has the run of equal
  magnitudes at the indices \<open>4, 5, 6\<close>, the detection reports its midpoint \<open>5\<close>, and the
  neighbour at index \<open>4\<close> is not lower.\<close>

theorem find_multiple_peaks_flat_top_counterexample:
  "\<exists>g. init (Some \<lparr>arg_t_max = Some (19 / 20), arg_n_samples = Some 20\<rparr>) = Inr g
     \<and> int (length [1, 0, 0, 0, 0, 1, 0, 0, 0, 0, - 2, 0, 0, 0, 0, 1, 0, 0, 0, 0 :: real])
         = n_samples (config g)
     \<and> compute_spectrum g [1, 0, 0, 0, 0, 1, 0, 0, 0, 0, - 2, 0, 0, 0, 0, 1, 0, 0, 0, 0] True
         = Inr [1 / 3, 1, 1, 1, 1 / 3, 1, 1, 1, 1 / 3, 1]
     \<and> spectrum_range g [1 / 3, 1, 1, 1, 1 / 3, 1, 1, 1, 1 / 3, 1] 1 None
         = [1, 1, 1, 1 / 3, 1, 1, 1, 1 / 3]
     \<and> freq_range g 1 None = [2, 3, 4, 5, 6, 7, 8, 9]
     \<and> find_peaks [1, 1, 1, 1 / 3, 1, 1, 1, 1 / 3] (1 / 10) = [5]
     \<and> find_multiple_peaks g [1, 0, 0, 0, 0, 1, 0, 0, 0, 0, - 2, 0, 0, 0, 0, 1, 0, 0, 0, 0]
           3 1 None (1 / 10) = Inr ([7], [1])
     \<and> \<not> ([1, 1, 1, 1 / 3, 1, 1, 1, 1 / 3 :: real] ! 4
           < [1, 1, 1, 1 / 3, 1, 1, 1, 1 / 3] ! 5)"
proof -
  let ?w = "[1, 0, 0, 0, 0, 1, 0, 0, 0, 0, - 2, 0, 0, 0, 0, 1, 0, 0, 0, 0] :: real list"
  let ?s = "[1 / 3, 1, 1, 1, 1 / 3, 1, 1, 1, 1 / 3, 1] :: real list"
  from init_twenty_samples obtain g
    where g: "init (Some \<lparr>arg_t_max = Some (19 / 20), arg_n_samples = Some 20\<rparr>) = Inr g"
      "n_samples (config g) = 20" "n_freq g = 10"
      "freq_positive g = [1, 2, 3, 4, 5, 6, 7, 8, 9]"
    by blast
  have h: "int (length ?w) = n_samples (config g)" using g(2) by simp
  have sp: "compute_spectrum g ?w True = Inr ?s"
    using g(3,2) by (rule spectrum_twenty_flat)
  have fr: "freq_range g 1 None = [2, 3, 4, 5, 6, 7, 8, 9]"
    by (simp add: freq_range_def min_idx_def max_idx_def searchsorted_def py_slice_def g(4))
  have sr: "spectrum_range g ?s 1 None = [1, 1, 1, 1 / 3, 1, 1, 1, 1 / 3]"
    unfolding spectrum_range_def fr by (simp add: min_idx_def searchsorted_def py_slice_def g(4))
  have pk: "find_peaks [1, 1, 1, 1 / 3, 1, 1, 1, 1 / 3] (1 / 10) = [5]"
    unfolding find_peaks_def local_maxima_flat by simp
  have ev: "find_multiple_peaks g ?w 3 1 None (1 / 10) = Inr ([7], [1])"
    unfolding find_multiple_peaks_def sp sum.case Let_def fr sr pk
    by (simp add: argsort_def py_prefix_def)
  have ng: "\<not> ([1, 1, 1, 1 / 3, 1, 1, 1, 1 / 3 :: real] ! 4
           < [1, 1, 1, 1 / 3, 1, 1, 1, 1 / 3] ! 5)"
    by simp
  from g(1) h sp sr fr pk ev ng show ?thesis by blast
qed

subsection \<open>Bandwidth\<close>

text \<open>The first and the last index below \<open>n\<close> at which a predicate holds.\<close>

lemma filter_upt_hd:
  assumes "i < n" and "P i"
  shows "hd (filter P [0..<n]) < n \<and> P (hd (filter P [0..<n]))
     \<and> (\<forall>j<hd (filter P [0..<n]). \<not> P j)"
proof -
  let ?xs = "filter P [0..<n]"
  have ne: "?xs \<noteq> []" using assms by (auto simp: filter_empty_conv)
  have srt: "sorted ?xs" by (simp add: sorted_wrt_filter)
  have mem: "hd ?xs \<in> set ?xs" using ne by (rule hd_in_set)
  have least: "hd ?xs \<le> y" if y: "y \<in> set ?xs" for y
  proof -
    obtain k where k: "k < length ?xs" "?xs ! k = y"
      using y unfolding in_set_conv_nth by blast
    have "?xs ! 0 \<le> ?xs ! k"
      using srt _ k(1) by (rule sorted_nth_mono) simp
    then show ?thesis using k(2) ne by (simp add: hd_conv_nth)
  qed
  have in_n: "hd ?xs < n" and holds: "P (hd ?xs)" using mem by simp_all
  have before: "\<not> P j" if "j < hd ?xs" for j
  proof
    assume "P j"
    moreover have "hd ?xs < n" using mem by simp
    ultimately have "j \<in> set ?xs" using that by simp
    from least [OF this] that show False by simp
  qed
  show ?thesis
  proof (intro conjI allI impI)
    show "hd ?xs < n" by (rule in_n)
    show "P (hd ?xs)" by (rule holds)
    show "\<not> P j" if "j < hd ?xs" for j using that by (rule before)
  qed
qed

lemma filter_upt_last:
  assumes "i < n" and "P i"
  shows "last (filter P [0..<n]) < n \<and> P (last (filter P [0..<n]))
     \<and> (\<forall>j. last (filter P [0..<n]) < j \<and> j < n \<longrightarrow> \<not> P j)"
proof -
  let ?xs = "filter P [0..<n]"
  have ne: "?xs \<noteq> []" using assms by (auto simp: filter_empty_conv)
  have srt: "sorted ?xs" by (simp add: sorted_wrt_filter)
  have mem: "last ?xs \<in> set ?xs" using ne by (rule last_in_set)
  have greatest: "y \<le> last ?xs" if y: "y \<in> set ?xs" for y
  proof -
    obtain k where k: "k < length ?xs" "?xs ! k = y"
      using y unfolding in_set_conv_nth by blast
    have "k \<le> length ?xs - 1" "length ?xs - 1 < length ?xs" using k(1) by simp_all
    with srt have "?xs ! k \<le> ?xs ! (length ?xs - 1)"
      by (rule sorted_nth_mono)
    then show ?thesis using k(2) ne by (simp add: last_conv_nth)
  qed
  have in_n: "last ?xs < n" and holds: "P (last ?xs)" using mem by simp_all
  have after: "\<not> P j" if "last ?xs < j" "j < n" for j
  proof
    assume "P j"
    with that(2) have "j \<in> set ?xs" by simp
    from greatest [OF this] that(1) show False by simp
  qed
  show ?thesis
  proof (intro conjI allI impI)
    show "last ?xs < n" by (rule in_n)
    show "P (last ?xs)" by (rule holds)
    show "\<not> P j" if "last ?xs < j \<and> j < n" for j using that after by blast
  qed
qed


lemma compute_bandwidth_unfold:
  assumes "compute_spectrum self wave True = Inr spectrum"
    and "length (freq_positive self) < length spectrum"
  shows "compute_bandwidth self wave threshold
     = (if \<forall>i<length (freq_positive self). spectrum ! (i + 1) < threshold then Inr (0, 0, 0)
        else (let I = filter (\<lambda>i. threshold \<le> spectrum ! (i + 1))
                        [0..<length (freq_positive self)]
              in Inr (freq_positive self ! hd I, freq_positive self ! last I,
                      freq_positive self ! last I - freq_positive self ! hd I)))"
proof -
  let ?L = "length (freq_positive self)"
  let ?ex = "py_slice 1 (?L + 1) spectrum"
  let ?mask = "map (\<lambda>m. threshold \<le> m) ?ex"
  have len: "length ?ex = ?L" using assms(2) by (simp add: py_slice_def)
  have nth: "?ex ! i = spectrum ! (i + 1)" if "i < ?L" for i
    using that assms(2) by (simp add: py_slice_def)
  have ex: "list_ex (\<lambda>b. b) ?mask \<longleftrightarrow> (\<exists>i<?L. threshold \<le> spectrum ! (i + 1))"
  proof -
    have "list_ex (\<lambda>b. b) ?mask \<longleftrightarrow> (\<exists>i<length ?ex. threshold \<le> ?ex ! i)"
      by (simp add: list_ex_iff) (metis in_set_conv_nth)
    also have "\<dots> \<longleftrightarrow> (\<exists>i<?L. threshold \<le> spectrum ! (i + 1))"
      using len nth by auto
    finally show ?thesis .
  qed
  have flt: "filter (\<lambda>i. ?mask ! i) [0..<length ?mask]
      = filter (\<lambda>i. threshold \<le> spectrum ! (i + 1)) [0..<?L]"
  proof -
    have mk: "?mask ! i = (threshold \<le> spectrum ! (i + 1))" if "i < ?L" for i
    proof -
      have "i < length ?ex" using that len by simp
      then have "?mask ! i = (threshold \<le> ?ex ! i)" by (rule nth_map)
      with nth [OF that] show ?thesis by simp
    qed
    have "filter (\<lambda>i. ?mask ! i) [0..<?L]
      = filter (\<lambda>i. threshold \<le> spectrum ! (i + 1)) [0..<?L]"
      using mk by (intro filter_cong) auto
    then show ?thesis by (simp only: length_map len)
  qed
  have "compute_bandwidth self wave threshold
     = (if \<not> list_ex (\<lambda>b. b) ?mask then Inr (0, 0, 0)
        else (let I = filter (\<lambda>i. ?mask ! i) [0..<length ?mask]
              in Inr (freq_positive self ! hd I, freq_positive self ! last I,
                      freq_positive self ! last I - freq_positive self ! hd I)))"
    using assms(1) by (simp add: compute_bandwidth_def Let_def)
  also have "\<dots> = (if \<forall>i<?L. spectrum ! (i + 1) < threshold then Inr (0, 0, 0)
        else (let I = filter (\<lambda>i. threshold \<le> spectrum ! (i + 1)) [0..<?L]
              in Inr (freq_positive self ! hd I, freq_positive self ! last I,
                      freq_positive self ! last I - freq_positive self ! hd I)))"
  proof -
    have c: "(\<not> (\<exists>i<?L. threshold \<le> spectrum ! (i + 1)))
        = (\<forall>i<?L. spectrum ! (i + 1) < threshold)"
      by (simp add: not_le)
    show ?thesis unfolding flt ex c ..
  qed
  finally show ?thesis .
qed

text \<open>
  C3. On a constructed grid and for every wave of length \<open>n_samples\<close> and every
  threshold, \<open>compute_bandwidth\<close> examines the entries \<open>1 \<dots> len(freq_positive)\<close> of
  the normalized spectrum, entry \<open>i + 1\<close> against \<open>freq_positive[i]\<close> (which for
  \<open>t_max > 0\<close> is \<open>freq[i + 1]\<close>, the frequency of that bin). It returns \<open>(0, 0, 0)\<close>
  exactly when none of them reaches the threshold, and always for the threshold
  \<open>1.1\<close>. Otherwise it returns the frequency at the first qualifying bin, the frequency
  at the last one, and their difference, with \<open>low \<le> high\<close>.
\<close>

theorem compute_bandwidth_spec:
  assumes "init cfg = Inr g" and "int (length wave) = n_samples (config g)"
  shows "\<exists>spectrum. compute_spectrum g wave True = Inr spectrum
     \<and> length (freq_positive g) < length spectrum
     \<and> (compute_bandwidth g wave threshold = Inr (0, 0, 0)
          \<longleftrightarrow> (\<forall>i<length (freq_positive g). spectrum ! (i + 1) < threshold))
     \<and> ((\<exists>i<length (freq_positive g). threshold \<le> spectrum ! (i + 1)) \<longrightarrow>
          (\<exists>lo hi. lo \<le> hi \<and> hi < length (freq_positive g)
             \<and> threshold \<le> spectrum ! (lo + 1)
             \<and> (\<forall>j<lo. spectrum ! (j + 1) < threshold)
             \<and> threshold \<le> spectrum ! (hi + 1)
             \<and> (\<forall>j. hi < j \<and> j < length (freq_positive g)
                    \<longrightarrow> spectrum ! (j + 1) < threshold)
             \<and> freq_positive g ! lo \<le> freq_positive g ! hi
             \<and> compute_bandwidth g wave threshold
                 = Inr (freq_positive g ! lo, freq_positive g ! hi,
                        freq_positive g ! hi - freq_positive g ! lo)))
     \<and> (0 < t_max (config g) \<longrightarrow>
          (\<forall>i<length (freq_positive g). freq_positive g ! i = freq g ! (i + 1)))
     \<and> compute_bandwidth g wave (11 / 10) = Inr (0, 0, 0)"
proof -
  let ?fp = "freq_positive g"
  let ?L = "length ?fp"
  obtain s where s: "compute_spectrum g wave True = Inr s"
    "length s = nat (n_samples (config g) div 2)" "\<forall>x\<in>set s. 0 \<le> x \<and> x \<le> 1"
    using normalised_spectrum_facts [OF assms] by blast
  have nf: "n_freq g = n_samples (config g) div 2" using init_Inr [OF assms(1)] by simp
  have L: "?L < length s"
    using freq_positive_facts(3) [OF assms(1)] nf s(2) by simp
  note srt = freq_positive_facts(1) [OF assms(1)]
  note fpos = freq_positive_facts(2) [OF assms(1)]
  let ?P = "\<lambda>i. threshold \<le> s ! (i + 1)"
  let ?I = "filter ?P [0..<?L]"
  have unf: "compute_bandwidth g wave th
     = (if \<forall>i<?L. s ! (i + 1) < th then Inr (0, 0, 0)
        else (let I = filter (\<lambda>i. th \<le> s ! (i + 1)) [0..<?L]
              in Inr (?fp ! hd I, ?fp ! last I, ?fp ! last I - ?fp ! hd I)))" for th
    using s(1) L by (rule compute_bandwidth_unfold)
  have some: "\<exists>lo hi. lo \<le> hi \<and> hi < ?L \<and> ?P lo \<and> (\<forall>j<lo. s ! (j + 1) < threshold)
       \<and> ?P hi \<and> (\<forall>j. hi < j \<and> j < ?L \<longrightarrow> s ! (j + 1) < threshold)
       \<and> ?fp ! lo \<le> ?fp ! hi
       \<and> compute_bandwidth g wave threshold = Inr (?fp ! lo, ?fp ! hi, ?fp ! hi - ?fp ! lo)
       \<and> 0 < ?fp ! lo"
    if ex: "\<exists>i<?L. ?P i"
  proof -
    from ex obtain i where i: "i < ?L" "?P i" by blast
    have h: "hd ?I < ?L" "?P (hd ?I)" "\<forall>j<hd ?I. \<not> ?P j"
      using filter_upt_hd [of i ?L ?P, OF i] by blast+
    have l: "last ?I < ?L" "?P (last ?I)" "\<forall>j. last ?I < j \<and> j < ?L \<longrightarrow> \<not> ?P j"
      using filter_upt_last [of i ?L ?P, OF i] by blast+
    have le: "hd ?I \<le> last ?I"
    proof (rule ccontr)
      assume "\<not> hd ?I \<le> last ?I"
      then have "last ?I < hd ?I" by simp
      with h(3) l(2) show False by blast
    qed
    have mono: "?fp ! hd ?I \<le> ?fp ! last ?I"
    proof (cases "hd ?I = last ?I")
      case True
      then show ?thesis by simp
    next
      case False
      with le have "hd ?I < last ?I" by simp
      with srt l(1) have "?fp ! hd ?I < ?fp ! last ?I"
        by (simp add: sorted_wrt_iff_nth_less)
      then show ?thesis by simp
    qed
    have "\<not> (\<forall>i<?L. s ! (i + 1) < threshold)" using i by (auto simp: not_less)
    then have res: "compute_bandwidth g wave threshold
        = Inr (?fp ! hd ?I, ?fp ! last ?I, ?fp ! last ?I - ?fp ! hd ?I)"
      unfolding unf Let_def by (rule if_not_P)
    have p: "0 < ?fp ! hd ?I" using fpos h(1) by simp
    have b1: "\<forall>j<hd ?I. s ! (j + 1) < threshold" using h(3) by (simp add: not_le)
    have b2: "\<forall>j. last ?I < j \<and> j < ?L \<longrightarrow> s ! (j + 1) < threshold"
      using l(3) by (simp add: not_le)
    show ?thesis
      using le l(1) h(2) b1 l(2) b2 mono res p by blast
  qed
  have iff: "compute_bandwidth g wave threshold = Inr (0, 0, 0)
       \<longleftrightarrow> (\<forall>i<?L. s ! (i + 1) < threshold)"
  proof
    assume "\<forall>i<?L. s ! (i + 1) < threshold"
    then show "compute_bandwidth g wave threshold = Inr (0, 0, 0)"
      unfolding unf by (rule if_P)
  next
    assume z: "compute_bandwidth g wave threshold = Inr (0, 0, 0)"
    show "\<forall>i<?L. s ! (i + 1) < threshold"
    proof (rule ccontr)
      assume "\<not> (\<forall>i<?L. s ! (i + 1) < threshold)"
      then have "\<exists>i<?L. ?P i" by (simp add: not_less)
      from some [OF this] obtain lo hi where
        "compute_bandwidth g wave threshold = Inr (?fp ! lo, ?fp ! hi, ?fp ! hi - ?fp ! lo)"
        "0 < ?fp ! lo" by blast
      with z show False by simp
    qed
  qed
  have aligned: "\<forall>i<?L. ?fp ! i = freq g ! (i + 1)" if "0 < t_max (config g)"
  proof -
    have tl: "?fp = tl (freq g)" using assms(1) that by (rule freq_positive_facts(4))
    show ?thesis
    proof (intro allI impI)
      fix i assume "i < ?L"
      then have "i < length (tl (freq g))" using tl by simp
      then have "tl (freq g) ! i = freq g ! (i + 1)" by (simp add: nth_tl)
      then show "?fp ! i = freq g ! (i + 1)" using tl by simp
    qed
  qed
  have top: "compute_bandwidth g wave (11 / 10) = Inr (0, 0, 0)"
  proof -
    have "s ! (i + 1) < 11 / 10" if "i < ?L" for i
    proof -
      have "s ! (i + 1) \<in> set s" using that L by simp
      with s(3) have "s ! (i + 1) \<le> 1" by blast
      then show ?thesis by simp
    qed
    then have "\<forall>i<?L. s ! (i + 1) < 11 / 10" by blast
    then show ?thesis unfolding unf by (rule if_P)
  qed
  have part: "(\<exists>i<?L. ?P i) \<longrightarrow>
          (\<exists>lo hi. lo \<le> hi \<and> hi < ?L \<and> ?P lo \<and> (\<forall>j<lo. s ! (j + 1) < threshold)
             \<and> ?P hi \<and> (\<forall>j. hi < j \<and> j < ?L \<longrightarrow> s ! (j + 1) < threshold)
             \<and> ?fp ! lo \<le> ?fp ! hi
             \<and> compute_bandwidth g wave threshold
                 = Inr (?fp ! lo, ?fp ! hi, ?fp ! hi - ?fp ! lo))"
    using some by blast
  show ?thesis
    using s(1) L iff part aligned top by blast
qed


theorem compute_bandwidth_spec_witness:
  "\<exists>g. init (Some \<lparr>arg_t_max = Some (7 / 8), arg_n_samples = Some 8\<rparr>) = Inr g
     \<and> int (length [1, 0, - 1, 0, 1, 0, - 1, 0 :: real]) = n_samples (config g)
     \<and> compute_spectrum g [1, 0, - 1, 0, 1, 0, - 1, 0] True = Inr [0, 0, 1, 0]
     \<and> freq_positive g = [1, 2, 3]
     \<and> 0 < t_max (config g)
     \<and> compute_bandwidth g [1, 0, - 1, 0, 1, 0, - 1, 0] (4 / 5) = Inr (2, 2, 0)
     \<and> compute_bandwidth g [1, 0, - 1, 0, 1, 0, - 1, 0] (11 / 10) = Inr (0, 0, 0)"
proof -
  let ?g = "\<lparr>config = \<lparr>t_max = 7 / 8, n_samples = 8\<rparr>,
            t = [0, 1 / 8, 2 / 8, 3 / 8, 4 / 8, 5 / 8, 6 / 8, 7 / 8], dt = 1 / 8,
            n_freq = 4, freq = [0, 1, 2, 3], freq_positive = [1, 2, 3 :: real]\<rparr>"
  let ?w = "[1, 0, - 1, 0, 1, 0, - 1, 0] :: real list"
  have h: "int (length ?w) = n_samples (config ?g)" by simp
  have sp: "compute_spectrum ?g ?w True = Inr [0, 0, 1, 0]"
    by (rule spectrum_eight_normalised) simp_all
  from compute_bandwidth_spec [OF init_eight_samples h, of "4 / 5"] sp
  have some: "(\<exists>i<length (freq_positive ?g). 4 / 5 \<le> [0, 0, 1, 0 :: real] ! (i + 1)) \<longrightarrow>
      (\<exists>lo hi. lo \<le> hi \<and> hi < length (freq_positive ?g)
         \<and> 4 / 5 \<le> [0, 0, 1, 0 :: real] ! (lo + 1)
         \<and> 4 / 5 \<le> [0, 0, 1, 0 :: real] ! (hi + 1)
         \<and> compute_bandwidth ?g ?w (4 / 5)
             = Inr (freq_positive ?g ! lo, freq_positive ?g ! hi,
                    freq_positive ?g ! hi - freq_positive ?g ! lo))"
    and top: "compute_bandwidth ?g ?w (11 / 10) = Inr (0, 0, 0)"
    by auto
  have "\<exists>i<length (freq_positive ?g). 4 / 5 \<le> [0, 0, 1, 0 :: real] ! (i + 1)"
    by (intro exI [of _ 1]) simp
  with some obtain lo hi where r: "hi < length (freq_positive ?g)" "lo \<le> hi"
    "4 / 5 \<le> [0, 0, 1, 0 :: real] ! (lo + 1)" "4 / 5 \<le> [0, 0, 1, 0 :: real] ! (hi + 1)"
    "compute_bandwidth ?g ?w (4 / 5)
       = Inr (freq_positive ?g ! lo, freq_positive ?g ! hi,
              freq_positive ?g ! hi - freq_positive ?g ! lo)"
    by blast
  have "hi = 0 \<or> hi = 1 \<or> hi = 2" using r(1) by auto
  with r(4) have hi: "hi = 1" by auto
  have "lo = 0 \<or> lo = 1" using r(2) hi by auto
  with r(3) have lo: "lo = 1" by auto
  have bw: "compute_bandwidth ?g ?w (4 / 5) = Inr (2, 2, 0)"
    using r(5) unfolding hi lo by simp
  show ?thesis
    using init_eight_samples h sp bw top by (intro exI [of _ ?g]) simp
qed

subsection \<open>Energy and statistics\<close>

text \<open>
  C9. For every non-empty wave, \<open>compute_energy\<close> is the sum of the squared amplitudes
  times \<open>dt\<close>, and \<open>compute_statistics\<close> returns a mapping with exactly the seven keys
  mean, std, min, max, peak_to_peak, rms and energy: the arithmetic mean, the population
  standard deviation, the least and the greatest sample, their difference, the square
  root of the mean square, and the value of \<open>compute_energy\<close>.
\<close>

theorem compute_statistics_spec:
  assumes "wave \<noteq> []"
  shows "compute_energy self wave = (\<Sum>x\<leftarrow>wave. x * x) * dt self
    \<and> (\<exists>stats. compute_statistics self wave = Inr stats
        \<and> dom stats = {''mean'', ''std'', ''min'', ''max'', ''peak_to_peak'', ''rms'', ''energy''}
        \<and> stats ''mean'' = Some (sum_list wave / real (length wave))
        \<and> stats ''std'' = Some (sqrt ((\<Sum>x\<leftarrow>wave. (x - sum_list wave / real (length wave)) ^ 2)
                                   / real (length wave)))
        \<and> stats ''min'' = Some (Min (set wave))
        \<and> stats ''max'' = Some (Max (set wave))
        \<and> stats ''peak_to_peak'' = Some (Max (set wave) - Min (set wave))
        \<and> stats ''rms'' = Some (sqrt ((\<Sum>x\<leftarrow>wave. x * x) / real (length wave)))
        \<and> stats ''energy'' = Some (compute_energy self wave))"
proof -
  have e: "compute_energy self wave = (\<Sum>x\<leftarrow>wave. x * x) * dt self"
    by (simp add: compute_energy_def power2_eq_square)
  have d: "dom (map_of
        [(''mean'', np_mean wave),
         (''std'', np_std wave),
         (''min'', np_min wave),
         (''max'', np_max wave),
         (''peak_to_peak'', np_max wave - np_min wave),
         (''rms'', sqrt (np_mean (map (\<lambda>x. x ^ 2) wave))),
         (''energy'', compute_energy self wave)])
      = {''mean'', ''std'', ''min'', ''max'', ''peak_to_peak'', ''rms'', ''energy''}"
    by (simp add: dom_map_of_conv_image_fst)
  have s: "np_std wave = sqrt ((\<Sum>x\<leftarrow>wave. (x - sum_list wave / real (length wave)) ^ 2)
                                   / real (length wave))"
    by (simp add: np_std_def np_mean_def)
  have r: "np_mean (map (\<lambda>x. x ^ 2) wave) = (\<Sum>x\<leftarrow>wave. x * x) / real (length wave)"
    by (simp add: np_mean_def power2_eq_square)
  show ?thesis
    using assms e d s r
    by (simp add: compute_statistics_def np_max_Max np_min_Min np_mean_def)
qed

theorem compute_statistics_spec_witness:
  "[1, 2] \<noteq> ([]::real list)
   \<and> compute_energy \<lparr>config = \<lparr>t_max = 1, n_samples = 2\<rparr>, t = [0, 1], dt = 1,
         n_freq = 1, freq = [0], freq_positive = []\<rparr> [1, 2] = 5
   \<and> (\<exists>stats. compute_statistics \<lparr>config = \<lparr>t_max = 1, n_samples = 2\<rparr>, t = [0, 1],
         dt = 1, n_freq = 1, freq = [0], freq_positive = []\<rparr> [1, 2] = Inr stats
        \<and> stats ''mean'' = Some (3 / 2)
        \<and> stats ''peak_to_peak'' = Some 1)"
  using compute_statistics_spec [of "[1, 2]" "\<lparr>config = \<lparr>t_max = 1, n_samples = 2\<rparr>,
    t = [0, 1], dt = 1, n_freq = 1, freq = [0], freq_positive = []\<rparr>"] by auto

end
